theory Spec2Isabelle
  imports Main
begin

section \<open>JSON pointers (RFC 6901) and relative JSON pointers\<close>

text \<open>
  A shallow embedding of \<^verbatim>\<open>pointer.ts\<close> (the version with \<^verbatim>\<open>traverse\<close>) and of
  \<^verbatim>\<open>relativePointer.ts\<close>.

  \<^item> A thrown exception is the left summand of a sum type; the constructor is the class of
    the exception and its argument the message.
  \<^item> JavaScript strings are \<^typ>\<open>string\<close> (character lists).
  \<^item> A stored pointer segment is a string or a non-negative integer: every construction
    path of the source yields non-negative integers only (\<^verbatim>\<open>parseInt\<close> of a digit
    string, or a number that passed \<^verbatim>\<open>segment < 0\<close>), so the stored integer is a
    \<^typ>\<open>nat\<close>. Whether it is a safe integer is \<^emph>\<open>not\<close> part of the type.
  \<^item> The numbers handed to \<^verbatim>\<open>from\<close> are arbitrary JavaScript numbers: an integer value,
    or a non-integral one (a fraction, NaN, an infinity) of which only the printed form is
    kept, since the source only prints it.
  \<^item> \<^verbatim>\<open>parseInt\<close> of a digit string is its decimal value. (JavaScript rounds values above
    \<open>2^53\<close> to the nearest double, which is again at least \<open>2^53\<close>; \<open>2^53\<close> itself is exact.)
  \<^item> The value tree is plain data: objects have own properties only, nothing is frozen,
    and no object is reachable by two paths.
\<close>

subsection \<open>Errors\<close>

datatype error =
    JsonPointerError string
  | InvalidSyntaxError string
  | InvalidReferenceError string
  | PlainError string

subsection \<open>Strings and numbers of the host language\<close>

definition quoted :: "string \<Rightarrow> string" where
  "quoted s = CHR 0x22 # s @ [CHR 0x22]"

definition is_digit :: "char \<Rightarrow> bool" where
  "is_digit c = (48 \<le> (of_char c :: nat) \<and> (of_char c :: nat) \<le> 57)"

definition digit_val :: "char \<Rightarrow> nat" where
  "digit_val c = of_char c - 48"

definition digit_char :: "nat \<Rightarrow> char" where
  "digit_char d = ''0123456789'' ! d"

text \<open>The regular expression \<^verbatim>\<open>/^\d+$/\<close>.\<close>

definition digits_only :: "string \<Rightarrow> bool" where
  "digits_only s = (s \<noteq> [] \<and> list_all is_digit s)"

text \<open>\<^verbatim>\<open>parseInt(s, 10)\<close> on a string that starts with a digit: the value of the leading
  digit run.\<close>

definition digits_value :: "string \<Rightarrow> nat" where
  "digits_value s = foldl (\<lambda>acc c. 10 * acc + digit_val c) 0 s"

definition parseInt10 :: "string \<Rightarrow> nat" where
  "parseInt10 s = digits_value (takeWhile is_digit s)"

text \<open>The decimal rendering of a non-negative integer, as a template literal prints it
  (JavaScript prints digits up to \<open>10^21\<close>, which is beyond every safe integer).\<close>

function show_nat :: "nat \<Rightarrow> string" where
  "show_nat n = (if n < 10 then [digit_char n] else show_nat (n div 10) @ [digit_char (n mod 10)])"
  by pat_completeness auto
termination
  by (relation "measure (\<lambda>n. n)") auto

declare show_nat.simps [simp del]

datatype number = Integer int | NonInteger string

definition show_number :: "number \<Rightarrow> string" where
  "show_number x = (case x of
      Integer i \<Rightarrow> (if i < 0 then CHR ''-'' # show_nat (nat (- i)) else show_nat (nat i))
    | NonInteger s \<Rightarrow> s)"

definition MAX_SAFE_INTEGER :: nat where
  "MAX_SAFE_INTEGER = 9007199254740991"

definition isSafeInteger :: "number \<Rightarrow> bool" where
  "isSafeInteger x = (case x of
      Integer i \<Rightarrow> - int MAX_SAFE_INTEGER \<le> i \<and> i \<le> int MAX_SAFE_INTEGER
    | NonInteger s \<Rightarrow> False)"

definition is_negative :: "number \<Rightarrow> bool" where
  "is_negative x = (case x of Integer i \<Rightarrow> i < 0 | NonInteger s \<Rightarrow> False)"

text \<open>\<^verbatim>\<open>s.split('/')\<close>: never empty, one more piece than there are separators.\<close>

fun split_on :: "char \<Rightarrow> string \<Rightarrow> string list" where
  "split_on c [] = [[]]"
| "split_on c (x # xs) =
     (if x = c then [] # split_on c xs
      else (case split_on c xs of [] \<Rightarrow> [[x]] | w # ws \<Rightarrow> (x # w) # ws))"

text \<open>\<^verbatim>\<open>pieces.join('/')\<close>.\<close>

fun join_with :: "char \<Rightarrow> string list \<Rightarrow> string" where
  "join_with c [] = []"
| "join_with c [w] = w"
| "join_with c (w # ws) = w @ c # join_with c ws"

text \<open>\<^verbatim>\<open>s.replace(/ab/g, r)\<close> for a two-character pattern: every occurrence, left to right,
  without rescanning the replacement.\<close>

fun replace_all2 :: "char \<Rightarrow> char \<Rightarrow> string \<Rightarrow> string \<Rightarrow> string" where
  "replace_all2 a b r (x # y # s) =
     (if x = a \<and> y = b then r @ replace_all2 a b r s else x # replace_all2 a b r (y # s))"
| "replace_all2 a b r s = s"

text \<open>\<^verbatim>\<open>s.replace('c', r)\<close> with a string pattern: the first occurrence only.\<close>

fun replace_first :: "char \<Rightarrow> string \<Rightarrow> string \<Rightarrow> string" where
  "replace_first c r [] = []"
| "replace_first c r (x # s) = (if x = c then r @ s else x # replace_first c r s)"

text \<open>The regular expression \<^verbatim>\<open>/~(?![0-1])/\<close>: a tilde that is not followed by 0 or 1.\<close>

fun invalid_escape :: "string \<Rightarrow> bool" where
  "invalid_escape [] = False"
| "invalid_escape [x] = (x = CHR ''~'')"
| "invalid_escape (x # y # s) =
     ((x = CHR ''~'' \<and> y \<noteq> CHR ''0'' \<and> y \<noteq> CHR ''1'') \<or> invalid_escape (y # s))"

subsection \<open>Segments and pointers\<close>

datatype segment = Num nat | Str string

text \<open>What \<^verbatim>\<open>from\<close> accepts as a segment: \<^verbatim>\<open>string | number\<close>.\<close>

datatype raw_segment = RawNum number | RawStr string

type_synonym pointer = "segment list"

datatype pointer_like =
    LikePointer pointer
  | LikeNumber number
  | LikeString string
  | LikeSegments "raw_segment list"

definition raw_of :: "segment \<Rightarrow> raw_segment" where
  "raw_of s = (case s of Num n \<Rightarrow> RawNum (Integer (int n)) | Str k \<Rightarrow> RawStr k)"

text \<open>\<^verbatim>\<open>`${segment}`\<close>.\<close>

definition segment_text :: "segment \<Rightarrow> string" where
  "segment_text s = (case s of Num n \<Rightarrow> show_nat n | Str k \<Rightarrow> k)"

text \<open>\<^verbatim>\<open>normalizeSegment\<close>. A number whose printed form is a digit string is parsed back
  to itself, any other number fails the test and is returned as it is.\<close>

definition normalizeSegment :: "raw_segment \<Rightarrow> raw_segment" where
  "normalizeSegment seg = (case seg of
      RawStr s \<Rightarrow> (if digits_only s then RawNum (Integer (int (parseInt10 s))) else RawStr s)
    | RawNum x \<Rightarrow> RawNum x)"

text \<open>\<^verbatim>\<open>unescapeSegment\<close>, whose argument is a string: \<^verbatim>\<open>normalizeSegment\<close> first, and a
  string result has \<^verbatim>\<open>~1\<close> and then \<^verbatim>\<open>~0\<close> replaced everywhere.\<close>

definition unescapeSegment :: "string \<Rightarrow> segment" where
  "unescapeSegment s =
     (if digits_only s then Num (parseInt10 s)
      else Str (replace_all2 CHR ''~'' CHR ''0'' ''~'' (replace_all2 CHR ''~'' CHR ''1'' ''/'' s)))"

text \<open>\<^verbatim>\<open>escapeSegment\<close>: \<^verbatim>\<open>segment.replace('~', '~0').replace('/', '~1')\<close>.\<close>

definition escapeSegment :: "segment \<Rightarrow> string" where
  "escapeSegment seg = (case seg of
      Num n \<Rightarrow> show_nat n
    | Str s \<Rightarrow> replace_first CHR ''/'' ''~1'' (replace_first CHR ''~'' ''~0'' s))"

text \<open>\<^verbatim>\<open>fromSegments\<close>: the first number that is negative or not a safe integer is reported.\<close>

fun fromSegments :: "raw_segment list \<Rightarrow> error + pointer" where
  "fromSegments [] = Inr []"
| "fromSegments (RawNum x # rest) =
     (if is_negative x \<or> \<not> isSafeInteger x
      then Inl (InvalidSyntaxError (''Invalid integer segment '' @ quoted (show_number x) @ ''.''))
      else (case fromSegments rest of
              Inl e \<Rightarrow> Inl e
            | Inr p \<Rightarrow> Inr (Num (case x of Integer i \<Rightarrow> nat i | NonInteger s \<Rightarrow> 0) # p)))"
| "fromSegments (RawStr s # rest) =
     (case fromSegments rest of Inl e \<Rightarrow> Inl e | Inr p \<Rightarrow> Inr (Str s # p))"

definition ROOT_SINGLETON :: pointer where
  "ROOT_SINGLETON = []"

definition parse :: "string \<Rightarrow> error + pointer" where
  "parse path =
     (if length path = 0 then Inr ROOT_SINGLETON
      else if invalid_escape path
        then Inl (InvalidSyntaxError (''Invalid escape sequence in '' @ quoted path @ ''.''))
      else if hd path \<noteq> CHR ''/''
        then Inl (InvalidSyntaxError
               (''A non-root pointer must start with a slash, actual '' @ quoted path @ ''.''))
      else Inr (map unescapeSegment (split_on CHR ''/'' (tl path))))"

definition pointer_from :: "pointer_like \<Rightarrow> error + pointer" where
  "pointer_from path = (case path of
      LikePointer p \<Rightarrow> Inr p
    | LikeSegments segs \<Rightarrow> fromSegments (map normalizeSegment segs)
    | LikeNumber x \<Rightarrow> fromSegments [RawNum x]
    | LikeString s \<Rightarrow> parse s)"

definition isRoot :: "pointer \<Rightarrow> bool" where
  "isRoot p = (length p = 0)"

definition getDepth :: "pointer \<Rightarrow> nat" where
  "getDepth p = length p"

definition getParent :: "pointer \<Rightarrow> error + pointer" where
  "getParent p =
     (if length p = 0 then Inl (JsonPointerError ''Cannot get parent of root pointer.'')
      else Inr (butlast p))"

text \<open>\<^verbatim>\<open>truncatedAt\<close>, called with array indices and lengths only: the depth is a \<^typ>\<open>nat\<close>.\<close>

definition truncatedAt :: "pointer \<Rightarrow> nat \<Rightarrow> error + pointer" where
  "truncatedAt p depth =
     (if depth = 0 then Inr ROOT_SINGLETON
      else if depth > length p
        then Inl (JsonPointerError (''Depth '' @ show_nat depth @ '' is out of bounds.''))
      else Inr (take depth p))"

definition joinedWith :: "pointer \<Rightarrow> pointer_like \<Rightarrow> error + pointer" where
  "joinedWith this other =
     (case pointer_from other of
        Inl e \<Rightarrow> Inl e
      | Inr normalizedPointer \<Rightarrow>
          if isRoot normalizedPointer then Inr this
          else fromSegments (map raw_of (this @ normalizedPointer)))"

definition toString :: "pointer \<Rightarrow> string" where
  "toString p = (if isRoot p then [] else CHR ''/'' # join_with CHR ''/'' (map escapeSegment p))"

definition equals :: "pointer \<Rightarrow> pointer \<Rightarrow> bool" where
  "equals this other =
     (if length this \<noteq> length other then False
      else list_all (\<lambda>i. this ! i = other ! i) [0 ..< length this])"

text \<open>The invariant the data model asks of a pointer's integer segments.\<close>

definition safe_segment :: "segment \<Rightarrow> bool" where
  "safe_segment s = (case s of Num n \<Rightarrow> n \<le> MAX_SAFE_INTEGER | Str k \<Rightarrow> True)"

subsection \<open>JSON values\<close>

text \<open>
  The value tree is supplied by the caller. Objects are ordered lists of own properties
  (the \<^verbatim>\<open>in\<close> operator is membership among the own keys), arrays are lists.
  \<open>JUndefined\<close> is what reading a missing array element gives: an array with such an
  element is sparse. Numbers and strings inside the tree are opaque to the program.
\<close>

datatype json =
    JUndefined
  | JNull
  | JBool bool
  | JNumber int
  | JString string
  | JArray "json list"
  | JObject "(string \<times> json) list"

text \<open>\<^verbatim>\<open>typeof v === 'object' && v !== null\<close>.\<close>

fun is_structure :: "json \<Rightarrow> bool" where
  "is_structure (JArray xs) = True"
| "is_structure (JObject kvs) = True"
| "is_structure v = False"

text \<open>\<^verbatim>\<open>key in object\<close>, \<^verbatim>\<open>object[key]\<close>, \<^verbatim>\<open>object[key] = v\<close> (a new key goes last) and
  \<^verbatim>\<open>delete object[key]\<close>.\<close>

definition has_key :: "string \<Rightarrow> (string \<times> json) list \<Rightarrow> bool" where
  "has_key k kvs = (k \<in> set (map fst kvs))"

definition obj_get :: "string \<Rightarrow> (string \<times> json) list \<Rightarrow> json" where
  "obj_get k kvs = (case map_of kvs k of None \<Rightarrow> JUndefined | Some v \<Rightarrow> v)"

fun obj_set :: "string \<Rightarrow> json \<Rightarrow> (string \<times> json) list \<Rightarrow> (string \<times> json) list" where
  "obj_set k v [] = [(k, v)]"
| "obj_set k v (p # ps) = (if fst p = k then (k, v) # ps else p # obj_set k v ps)"

definition obj_delete :: "string \<Rightarrow> (string \<times> json) list \<Rightarrow> (string \<times> json) list" where
  "obj_delete k kvs = filter (\<lambda>p. fst p \<noteq> k) kvs"

text \<open>\<^verbatim>\<open>array[i] = v\<close>: JavaScript extends the array when \<open>i\<close> is not an index of it, and
  leaves the positions in between missing. \<^verbatim>\<open>array.splice(i, 1)\<close> for an index of the
  array.\<close>

definition arr_assign :: "json list \<Rightarrow> nat \<Rightarrow> json \<Rightarrow> json list" where
  "arr_assign xs i v =
     (if i < length xs then xs[i := v] else xs @ replicate (i - length xs) JUndefined @ [v])"

definition arr_splice1 :: "json list \<Rightarrow> nat \<Rightarrow> json list" where
  "arr_splice1 xs i = take i xs @ drop (Suc i) xs"

text \<open>An array is dense when none of its elements is missing; a tree is dense when all its
  arrays are.\<close>

fun dense :: "json \<Rightarrow> bool" where
  "dense (JArray xs) = list_all (\<lambda>x. x \<noteq> JUndefined \<and> dense x) xs"
| "dense (JObject kvs) = list_all (\<lambda>p. dense (snd p)) kvs"
| "dense v = True"

subsection \<open>Traversal and reading\<close>

type_synonym entry = "segment option \<times> json"

text \<open>An \<^verbatim>\<open>InvalidReferenceError\<close> whose message cites \<^verbatim>\<open>this.truncatedAt(i)\<close>.\<close>

definition reference_error :: "pointer \<Rightarrow> nat \<Rightarrow> (string \<Rightarrow> string) \<Rightarrow> error + 'a" where
  "reference_error this i message =
     (case truncatedAt this i of
        Inl e \<Rightarrow> Inl e
      | Inr p \<Rightarrow> Inl (InvalidReferenceError (message (quoted (toString p)))))"

text \<open>The body of the loop of \<^verbatim>\<open>traverse\<close> at index \<open>i\<close>, with \<open>segment = this.segments[i]\<close>:
  the next value of \<^verbatim>\<open>current\<close>, or the error thrown.\<close>

definition traverse_step :: "pointer \<Rightarrow> nat \<Rightarrow> segment \<Rightarrow> json \<Rightarrow> error + json" where
  "traverse_step this i segment current =
     (if \<not> is_structure current
        then reference_error this i (\<lambda>at. ''Cannot read value at '' @ at @ ''.'')
      else (case current of
          JArray xs \<Rightarrow>
            (if segment = Str ''-''
               then reference_error this i
                 (\<lambda>at. ''Index '' @ show_nat (length xs) @ '' is out of bounds at '' @ at @ ''.'')
             else (case segment of
                 Str k \<Rightarrow> reference_error this i
                   (\<lambda>at. ''Expected an object at '' @ at @ '', got an array.'')
               | Num n \<Rightarrow>
                   (if n \<ge> length xs
                      then reference_error this i
                        (\<lambda>at. ''Index '' @ show_nat n @ '' is out of bounds at '' @ at @ ''.'')
                    else Inr (xs ! n))))
        | JObject kvs \<Rightarrow>
            (case segment of
               Num n \<Rightarrow> reference_error this i
                 (\<lambda>at. ''Expected array at '' @ at @ '', got object.'')
             | Str k \<Rightarrow>
                 (if \<not> has_key k kvs
                    then reference_error this i
                      (\<lambda>at. ''Property '' @ quoted k @ '' does not exist at '' @ at @ ''.'')
                  else Inr (obj_get k kvs)))
        | _ \<Rightarrow> reference_error this i (\<lambda>at. ''Cannot read value at '' @ at @ ''.'')))"

text \<open>The generator \<^verbatim>\<open>traverse\<close>, run to its end: the entries it yields, or the error it
  throws on the way. Both callers (\<^verbatim>\<open>get\<close> and \<^verbatim>\<open>getReferenceStack\<close>) drain it.
  \<open>traverse_loop this i rest current\<close> is the loop from index \<open>i\<close> on, \<open>rest\<close> being the
  segments from \<open>i\<close>.\<close>

fun traverse_loop :: "pointer \<Rightarrow> nat \<Rightarrow> segment list \<Rightarrow> json \<Rightarrow> error + entry list" where
  "traverse_loop this i [] current = Inr []"
| "traverse_loop this i (segment # rest) current =
     (case traverse_step this i segment current of
        Inl e \<Rightarrow> Inl e
      | Inr next \<Rightarrow>
          (case traverse_loop this (i + 1) rest next of
             Inl e \<Rightarrow> Inl e
           | Inr entries \<Rightarrow> Inr ((Some segment, next) # entries)))"

definition traverse :: "pointer \<Rightarrow> json \<Rightarrow> error + entry list" where
  "traverse this root =
     (case traverse_loop this 0 this root of
        Inl e \<Rightarrow> Inl e
      | Inr entries \<Rightarrow> Inr ((None, root) # entries))"

definition get :: "pointer \<Rightarrow> json \<Rightarrow> error + json" where
  "get this v =
     (case traverse this v of
        Inl e \<Rightarrow> Inl e
      | Inr entries \<Rightarrow> Inr (snd (last entries)))"

definition has :: "pointer \<Rightarrow> json \<Rightarrow> bool" where
  "has this root = (case get this root of Inl e \<Rightarrow> False | Inr v \<Rightarrow> True)"

subsection \<open>Writing and deleting\<close>

text \<open>
  \<^verbatim>\<open>set\<close> and \<^verbatim>\<open>unset\<close> mutate, in place, the container that \<^verbatim>\<open>get\<close> finds at the parent
  location. The tree is a value here (no sub-object is shared between two places), so the
  effect of the mutation on the tree is \<open>write_back parentPointer parent' root\<close>: the tree
  whose container at the parent location is the mutated one.
\<close>

fun write_back :: "pointer \<Rightarrow> json \<Rightarrow> json \<Rightarrow> json" where
  "write_back [] new current = new"
| "write_back (Num n # rest) new (JArray xs) =
     (if n < length xs then JArray (xs[n := write_back rest new (xs ! n)]) else JArray xs)"
| "write_back (Str k # rest) new (JObject kvs) =
     (if has_key k kvs then JObject (obj_set k (write_back rest new (obj_get k kvs)) kvs)
      else JObject kvs)"
| "write_back (s # rest) new current = current"

definition pointer_set :: "pointer \<Rightarrow> json \<Rightarrow> json \<Rightarrow> error + json" where
  "pointer_set this root v =
     (if isRoot this then Inl (JsonPointerError ''Cannot set root value.'')
      else (case get (butlast this) root of
          Inl e \<Rightarrow> Inl e
        | Inr parent \<Rightarrow>
            (if \<not> is_structure parent
               then Inl (JsonPointerError
                      (''Cannot set value at '' @ quoted (toString (butlast this)) @ ''.''))
             else (let segment = this ! (length this - 1) in
               (if (case segment of Num n \<Rightarrow> True | Str k \<Rightarrow> False) \<or> segment = Str ''-''
                then (case parent of
                    JArray xs \<Rightarrow>
                      (if segment = Str ''-''
                         then Inr (write_back (butlast this) (JArray (xs @ [v])) root)
                       else (case segment of
                           Num n \<Rightarrow>
                             (if n > length xs
                                then Inl (InvalidReferenceError
                                       (''Index '' @ show_nat n @ '' is out of bounds at ''
                                        @ quoted (toString (butlast this)) @ ''.''))
                              else Inr (write_back (butlast this)
                                          (JArray (arr_assign xs n v)) root))
                         | Str k \<Rightarrow> Inr root))
                  | _ \<Rightarrow> Inl (PlainError
                           (''Expected array at '' @ quoted (toString (butlast this))
                            @ '', got object.'')))
                else (case parent of
                    JArray xs \<Rightarrow> Inl (PlainError
                           (''Expected an object at '' @ quoted (toString (butlast this))
                            @ '', got an array.''))
                  | JObject kvs \<Rightarrow>
                      Inr (write_back (butlast this)
                             (JObject (obj_set (segment_text segment) v kvs)) root)
                  | _ \<Rightarrow> Inr root))))))"

text \<open>\<^verbatim>\<open>unset\<close> returns the tree after the call and the value returned to the caller,
  \<open>None\<close> for \<^verbatim>\<open>undefined\<close>.\<close>

definition unset :: "pointer \<Rightarrow> json \<Rightarrow> error + (json \<times> json option)" where
  "unset this root =
     (if isRoot this then Inl (InvalidReferenceError ''Cannot unset the root value.'')
      else (case get (butlast this) root of
          Inl e \<Rightarrow> Inr (root, None)
        | Inr parent \<Rightarrow>
            (if \<not> is_structure parent then Inr (root, None)
             else (case this ! (length this - 1) of
                 Num n \<Rightarrow>
                   (case parent of
                      JArray xs \<Rightarrow>
                        (if n \<ge> length xs then Inr (root, None)
                         else Inr (write_back (butlast this) (JArray (arr_splice1 xs n)) root,
                                   Some (xs ! n)))
                    | _ \<Rightarrow> Inr (root, None))
               | Str k \<Rightarrow>
                   (case parent of
                      JObject kvs \<Rightarrow>
                        (if \<not> has_key k kvs then Inr (root, None)
                         else Inr (write_back (butlast this) (JObject (obj_delete k kvs)) root,
                                   Some (obj_get k kvs)))
                    | _ \<Rightarrow> Inr (root, None))))))"

subsection \<open>Relative pointers\<close>

text \<open>
  A relative pointer keeps a list of segments, the first of which is the origin token.
  The class re-reads the token from its printed form each time. Every constructor checks
  the token against \<^verbatim>\<open>\d+([+-]\d+)?#?\<close>, so it starts with a digit run, which is what
  \<^verbatim>\<open>parseInt\<close> reads.
\<close>

type_synonym relative_pointer = "segment list"

text \<open>\<^verbatim>\<open>`${this.segments[0]}`\<close>.\<close>

definition origin_text :: "relative_pointer \<Rightarrow> string" where
  "origin_text this = (case this of [] \<Rightarrow> ''undefined'' | s # rest \<Rightarrow> segment_text s)"

definition strip_hash :: "string \<Rightarrow> string" where
  "strip_hash s = (if s \<noteq> [] \<and> last s = CHR ''#'' then butlast s else s)"

text \<open>The regular expression \<^verbatim>\<open>/^\d+([+-]\d+)?#?$/\<close>.\<close>

definition origin_token :: "string \<Rightarrow> bool" where
  "origin_token s =
     (let t = strip_hash s; r = dropWhile is_digit t
      in takeWhile is_digit t \<noteq> [] \<and>
         (r = [] \<or> ((hd r = CHR ''+'' \<or> hd r = CHR ''-'') \<and> digits_only (tl r))))"

text \<open>The regular expression \<^verbatim>\<open>/([+-]\d+)#?$/\<close>: the sign and the digits of the match, if
  there is one.\<close>

definition offset_match :: "string \<Rightarrow> (char \<times> string) option" where
  "offset_match s =
     (let t = strip_hash s;
          ds = rev (takeWhile is_digit (rev t));
          pre = rev (dropWhile is_digit (rev t))
      in if ds \<noteq> [] \<and> pre \<noteq> [] \<and> (last pre = CHR ''+'' \<or> last pre = CHR ''-'')
         then Some (last pre, ds) else None)"

definition isKeyPointer :: "relative_pointer \<Rightarrow> bool" where
  "isKeyPointer this = (origin_text this \<noteq> [] \<and> last (origin_text this) = CHR ''#'')"

definition getParentIndex :: "relative_pointer \<Rightarrow> nat" where
  "getParentIndex this = parseInt10 (origin_text this)"

definition getParentIndexOffset :: "relative_pointer \<Rightarrow> int" where
  "getParentIndexOffset this =
     (case offset_match (origin_text this) of
        None \<Rightarrow> 0
      | Some (sign, ds) \<Rightarrow>
          (if sign = CHR ''-'' then - int (digits_value ds) else int (digits_value ds)))"

definition relative_fromSegments :: "raw_segment list \<Rightarrow> error + relative_pointer" where
  "relative_fromSegments segments =
     (if length segments = 0
        then Inl (InvalidSyntaxError ''A relative pointer must have at least one segment.'')
      else pointer_from (LikeSegments segments))"

definition relative_parse :: "string \<Rightarrow> error + relative_pointer" where
  "relative_parse path =
     (if \<not> origin_token (takeWhile (\<lambda>c. c \<noteq> CHR ''/'') path)
        then Inl (InvalidSyntaxError
               (''A relative JSON pointer must start with a non-negative ''
                @ ''integer optionally followed by a hash character.''))
      else (case parse (CHR ''/'' # path) of
              Inl e \<Rightarrow> Inl e
            | Inr p \<Rightarrow> relative_fromSegments (map raw_of p)))"

definition getRemainderPointer :: "relative_pointer \<Rightarrow> error + pointer" where
  "getRemainderPointer this = pointer_from (LikeSegments (map raw_of (tl this)))"

definition resolve :: "relative_pointer \<Rightarrow> pointer_like \<Rightarrow> error + pointer" where
  "resolve this pointer =
     (if isKeyPointer this
        then Inl (JsonPointerError ''A key pointer cannot be resolved to an absolute pointer.'')
      else if getParentIndexOffset this \<noteq> 0
        then Inl (JsonPointerError
               ''A pointer with an offset cannot be resolved to an absolute pointer.'')
      else (let parentIndex = getParentIndex this in
        (case pointer_from pointer of
           Inl e \<Rightarrow> Inl e
         | Inr segments \<Rightarrow>
             (if parentIndex > length segments
                then Inl (JsonPointerError ''The relative pointer is out of bounds.'')
              else pointer_from (LikeSegments (map raw_of
                     ((if parentIndex > 0 then take (length segments - parentIndex) segments
                       else segments) @ tl this)))))))"

text \<open>\<^verbatim>\<open>getReferenceStack\<close> of the first and of the second version of the file (they are the
  same text). \<^verbatim>\<open>stack[stackIndex - 1]?.[1]\<close> is undefined when \<open>stackIndex\<close> is 0.\<close>

definition getReferenceStack :: "relative_pointer \<Rightarrow> json \<Rightarrow> pointer \<Rightarrow> error + entry list" where
  "getReferenceStack this root pointer =
     (case traverse pointer root of
        Inl e \<Rightarrow> Inl e
      | Inr stack \<Rightarrow>
          (let parentIndex = getParentIndex this in
           if parentIndex \<ge> length stack
             then Inl (JsonPointerError ''The relative pointer is out of bounds.'')
           else (let stackIndex = length stack - parentIndex - 1;
                     offset = getParentIndexOffset this in
             if offset \<noteq> 0
             then (case (if stackIndex = 0 then JUndefined else snd (stack ! (stackIndex - 1)),
                         fst (stack ! stackIndex)) of
                 (JArray elements, Some (Num n)) \<Rightarrow>
                   (let offsetIndex = int n + offset in
                    if offsetIndex < 0 \<or> offsetIndex \<ge> int (length elements)
                      then Inl (InvalidReferenceError ''The element index is out of bounds.'')
                    else Inr (take stackIndex stack
                              @ [(Some (Num (nat offsetIndex)), elements ! nat offsetIndex)]))
               | _ \<Rightarrow> Inl (InvalidReferenceError
                          ''An offset can only be applied to array elements.''))
             else Inr (take (stackIndex + 1) stack))))"

text \<open>The same method in the third version of the file: the two offset failures are plain
  \<^verbatim>\<open>JsonPointerError\<close>s there.\<close>

definition getReferenceStack_v3 :: "relative_pointer \<Rightarrow> json \<Rightarrow> pointer \<Rightarrow> error + entry list" where
  "getReferenceStack_v3 this root pointer =
     (case traverse pointer root of
        Inl e \<Rightarrow> Inl e
      | Inr stack \<Rightarrow>
          (let parentIndex = getParentIndex this in
           if parentIndex \<ge> length stack
             then Inl (JsonPointerError ''The relative pointer is out of bounds.'')
           else (let stackIndex = length stack - parentIndex - 1;
                     offset = getParentIndexOffset this in
             if offset \<noteq> 0
             then (case (if stackIndex = 0 then JUndefined else snd (stack ! (stackIndex - 1)),
                         fst (stack ! stackIndex)) of
                 (JArray elements, Some (Num n)) \<Rightarrow>
                   (let offsetIndex = int n + offset in
                    if offsetIndex < 0 \<or> offsetIndex \<ge> int (length elements)
                      then Inl (JsonPointerError ''The element index is out of bounds.'')
                    else Inr (take stackIndex stack
                              @ [(Some (Num (nat offsetIndex)), elements ! nat offsetIndex)]))
               | _ \<Rightarrow> Inl (JsonPointerError
                          ''An offset can only be applied to array elements.''))
             else Inr (take (stackIndex + 1) stack))))"

text \<open>A key returned as a value.\<close>

definition segment_value :: "segment \<Rightarrow> json" where
  "segment_value s = (case s of Num n \<Rightarrow> JNumber (int n) | Str k \<Rightarrow> JString k)"

definition relative_get :: "relative_pointer \<Rightarrow> json \<Rightarrow> pointer \<Rightarrow> error + json" where
  "relative_get this root pointer =
     (case getReferenceStack this root pointer of
        Inl e \<Rightarrow> Inl e
      | Inr stack \<Rightarrow>
          (if isKeyPointer this
           then (case fst (last stack) of
                   None \<Rightarrow> Inl (InvalidReferenceError ''The root value has no key.'')
                 | Some segment \<Rightarrow> Inr (segment_value segment))
           else (case getRemainderPointer this of
                   Inl e \<Rightarrow> Inl e
                 | Inr remainderPointer \<Rightarrow> get remainderPointer (snd (last stack)))))"

text \<open>
  The entries of a stack are the values met on the way from the root, each with the
  segment that led to it, so the segments of a stack are the location of its top value.
  \<^verbatim>\<open>set\<close> mutates the top value (or the one below it) in place; on the tree, that is a
  \<open>write_back\<close> at this location.
\<close>

definition stack_path :: "entry list \<Rightarrow> pointer" where
  "stack_path stack = List.map_filter fst stack"

text \<open>Setting through the single-segment pointer \<^verbatim>\<open>JsonPointer.from([segment])\<close>, where
  \<open>segment\<close> is that of the top entry, in the value of the entry below. An entry above the
  first always carries a segment (the source asserts it with \<^verbatim>\<open>!\<close>).\<close>

definition set_top_entry :: "entry list \<Rightarrow> json \<Rightarrow> json \<Rightarrow> error + json" where
  "set_top_entry stack root v =
     (case fst (last stack) of
        None \<Rightarrow> Inl (PlainError ''unreachable'')
      | Some segment \<Rightarrow>
          (case pointer_from (LikeSegments [raw_of segment]) of
             Inl e \<Rightarrow> Inl e
           | Inr single \<Rightarrow>
               (case pointer_set single (snd (stack ! (length stack - 2))) v of
                  Inl e \<Rightarrow> Inl e
                | Inr structure \<Rightarrow> Inr (write_back (stack_path (butlast stack)) structure root))))"

text \<open>\<^verbatim>\<open>JsonRelativePointer.set\<close> of the first version of the file.\<close>

definition relative_set :: "relative_pointer \<Rightarrow> json \<Rightarrow> json \<Rightarrow> pointer \<Rightarrow> error + json" where
  "relative_set this root v pointer =
     (if isKeyPointer this then Inl (JsonPointerError ''Cannot write to a key.'')
      else (case getReferenceStack this root pointer of
          Inl e \<Rightarrow> Inl e
        | Inr stack \<Rightarrow>
            (case getRemainderPointer this of
               Inl e \<Rightarrow> Inl e
             | Inr remainderPointer \<Rightarrow>
                 (if \<not> isRoot remainderPointer
                  then (case pointer_set remainderPointer (snd (last stack)) v of
                          Inl e \<Rightarrow> Inl e
                        | Inr changed \<Rightarrow> Inr (write_back (stack_path stack) changed root))
                  else if length stack < 2
                    then Inl (JsonPointerError ''Cannot set the root value.'')
                  else set_top_entry stack root v))))"

text \<open>The second version: the same statements in the same order.\<close>

definition relative_set_v2 :: "relative_pointer \<Rightarrow> json \<Rightarrow> json \<Rightarrow> pointer \<Rightarrow> error + json" where
  "relative_set_v2 this root v pointer =
     (if isKeyPointer this then Inl (JsonPointerError ''Cannot write to a key.'')
      else (case getReferenceStack this root pointer of
          Inl e \<Rightarrow> Inl e
        | Inr stack \<Rightarrow>
            (case getRemainderPointer this of
               Inl e \<Rightarrow> Inl e
             | Inr remainderPointer \<Rightarrow>
                 (if \<not> isRoot remainderPointer
                  then (case pointer_set remainderPointer (snd (last stack)) v of
                          Inl e \<Rightarrow> Inl e
                        | Inr changed \<Rightarrow> Inr (write_back (stack_path stack) changed root))
                  else if length stack < 2
                    then Inl (JsonPointerError ''Cannot set the root value.'')
                  else set_top_entry stack root v))))"

text \<open>The third version checks the size of the stack before it looks at the remainder.\<close>

definition relative_set_v3 :: "relative_pointer \<Rightarrow> json \<Rightarrow> json \<Rightarrow> pointer \<Rightarrow> error + json" where
  "relative_set_v3 this root v pointer =
     (if isKeyPointer this then Inl (JsonPointerError ''Cannot write to a key.'')
      else (case getReferenceStack_v3 this root pointer of
          Inl e \<Rightarrow> Inl e
        | Inr stack \<Rightarrow>
            (if length stack < 2 then Inl (JsonPointerError ''Cannot set the root value.'')
             else (case getRemainderPointer this of
                 Inl e \<Rightarrow> Inl e
               | Inr remainderPointer \<Rightarrow>
                   (if \<not> isRoot remainderPointer
                    then (case pointer_set remainderPointer (snd (last stack)) v of
                            Inl e \<Rightarrow> Inl e
                          | Inr changed \<Rightarrow> Inr (write_back (stack_path stack) changed root))
                    else set_top_entry stack root v)))))"

subsection \<open>Auxiliary notions for the proofs\<close>

text \<open>
  What every constructor of the two classes establishes for the segments it stores: an
  integer segment went through the range check, and a string segment is not a digit string
  (\<^verbatim>\<open>normalizeSegment\<close> turns those into numbers). A relative pointer has a first segment,
  which prints as an origin token.
\<close>

definition valid_segment :: "segment \<Rightarrow> bool" where
  "valid_segment s = (case s of Num n \<Rightarrow> n \<le> MAX_SAFE_INTEGER | Str k \<Rightarrow> \<not> digits_only k)"

definition valid_pointer :: "pointer \<Rightarrow> bool" where
  "valid_pointer p = list_all valid_segment p"

definition valid_relative :: "relative_pointer \<Rightarrow> bool" where
  "valid_relative this = (this \<noteq> [] \<and> valid_pointer this \<and> origin_token (origin_text this))"

text \<open>The weaker property that \<^verbatim>\<open>JsonPointer.parse\<close> guarantees as well: no string segment
  is a digit string.\<close>

definition normal_strings :: "pointer \<Rightarrow> bool" where
  "normal_strings p = list_all (\<lambda>s. case s of Num n \<Rightarrow> True | Str k \<Rightarrow> \<not> digits_only k) p"

text \<open>The length of a JavaScript array is below \<open>2^32\<close>.\<close>

definition MAX_ARRAY_LENGTH :: nat where
  "MAX_ARRAY_LENGTH = 4294967295"

fun within_array_limit :: "json \<Rightarrow> bool" where
  "within_array_limit (JArray xs) =
     (length xs \<le> MAX_ARRAY_LENGTH \<and> list_all within_array_limit xs)"
| "within_array_limit (JObject kvs) = list_all (\<lambda>p. within_array_limit (snd p)) kvs"
| "within_array_limit v = True"

text \<open>The value a pointer leads to, without the diagnostics: \<open>walk\<close> follows the segments
  and gives up where \<^verbatim>\<open>traverse\<close> throws.\<close>

fun walk_step :: "segment \<Rightarrow> json \<Rightarrow> json option" where
  "walk_step (Num n) (JArray xs) = (if n < length xs then Some (xs ! n) else None)"
| "walk_step (Str k) (JObject kvs) = (if has_key k kvs then Some (obj_get k kvs) else None)"
| "walk_step s v = None"

fun walk :: "pointer \<Rightarrow> json \<Rightarrow> json option" where
  "walk [] current = Some current"
| "walk (s # rest) current =
     (case walk_step s current of None \<Rightarrow> None | Some next \<Rightarrow> walk rest next)"

section \<open>Properties\<close>

subsection \<open>Traversal follows the segments\<close>



lemma reference_error_Inl: "\<exists>e. reference_error this i m = Inl e"
  by (simp add: reference_error_def split: sum.splits)

lemma reference_error_not_Inr [simp]: "reference_error this i m \<noteq> Inr v"
  by (simp add: reference_error_def split: sum.splits)

lemma traverse_step_Some:
  "walk_step s current = Some v \<Longrightarrow> traverse_step this i s current = Inr v"
  by (cases "(s, current)" rule: walk_step.cases)
     (auto simp: traverse_step_def has_key_def split: if_splits)

lemma traverse_step_None:
  "walk_step s current = None \<Longrightarrow> \<exists>e. traverse_step this i s current = Inl e"
  by (cases "(s, current)" rule: walk_step.cases)
     (auto simp: traverse_step_def reference_error_Inl split: if_splits json.splits segment.splits)

lemma traverse_step_Inr_iff:
  "traverse_step this i s current = Inr v \<longleftrightarrow> walk_step s current = Some v"
proof (cases "walk_step s current")
  case None
  then show ?thesis using traverse_step_None [of s current this i] by auto
next
  case (Some w)
  then show ?thesis using traverse_step_Some [of s current w this i] by auto
qed

lemma traverse_loop_walk:
  "(case traverse_loop this i rest current of
      Inl e \<Rightarrow> None
    | Inr entries \<Rightarrow> Some (snd (last ((x, current) # entries)))) = walk rest current"
proof (induction rest arbitrary: i current x)
  case Nil
  then show ?case by simp
next
  case (Cons s rest)
  show ?case
  proof (cases "walk_step s current")
    case None
    then obtain e where "traverse_step this i s current = Inl e"
      using traverse_step_None by blast
    with None show ?thesis by simp
  next
    case (Some nxt)
    then have step: "traverse_step this i s current = Inr nxt"
      by (rule traverse_step_Some)
    have ih: "(case traverse_loop this (i + 1) rest nxt of
                 Inl e \<Rightarrow> None
               | Inr entries \<Rightarrow> Some (snd (last ((Some s, nxt) # entries)))) = walk rest nxt"
      by (rule Cons.IH)
    show ?thesis
    proof (cases "traverse_loop this (i + 1) rest nxt")
      case (Inl e)
      with ih Some step show ?thesis by simp
    next
      case (Inr entries)
      with ih Some step show ?thesis by simp
    qed
  qed
qed

lemma get_walk: "get this root = Inr v \<longleftrightarrow> walk this root = Some v"
  using traverse_loop_walk [where this = this and i = 0 and rest = this and current = root
      and x = None]
  by (cases "traverse_loop this 0 this root") (auto simp: get_def traverse_def)


lemma walk_append:
  "walk (a @ b) current = (case walk a current of None \<Rightarrow> None | Some mid \<Rightarrow> walk b mid)"
  by (induction a arbitrary: current) (auto split: option.splits)



subsection \<open>Serialisation and parsing\<close>

text \<open>
  Claim C1 (round trip): for every pointer \<open>P\<close> built from well-formed unescaped segments,
  \<open>parse (toString P)\<close> succeeds and equals \<open>P\<close>, also when a segment holds more than one
  \<open>~\<close> or \<open>/\<close>.

  \<^verbatim>\<open>escapeSegment\<close> calls \<^verbatim>\<open>replace\<close> with string patterns, which replace the first
  occurrence only, while its comment and \<^verbatim>\<open>unescapeSegment\<close> (global patterns) treat every
  occurrence. With two tildes the second one stays unescaped and \<^verbatim>\<open>parse\<close> rejects the text;
  with two slashes the second one splits the segment in two.
\<close>

theorem roundtrip_fails_on_repeated_escape:
  "pointer_from (LikeSegments [RawStr ''~~'']) = Inr [Str ''~~'']
   \<and> toString [Str ''~~''] = ''/~0~''
   \<and> parse (toString [Str ''~~''])
       = Inl (InvalidSyntaxError (''Invalid escape sequence in '' @ quoted ''/~0~'' @ ''.''))
   \<and> pointer_from (LikeSegments [RawStr ''a/b/c'']) = Inr [Str ''a/b/c'']
   \<and> toString [Str ''a/b/c''] = ''/a~1b/c''
   \<and> parse (toString [Str ''a/b/c'']) = Inr [Str ''a/b'', Str ''c'']
   \<and> \<not> equals [Str ''a/b'', Str ''c''] [Str ''a/b/c'']"
  by code_simp

text \<open>
  Claim C2 (range check): every construction path (\<^verbatim>\<open>parse\<close>, \<^verbatim>\<open>from\<close>, \<^verbatim>\<open>joinedWith\<close>)
  rejects an integer segment that is not a non-negative safe integer, with a syntax error
  naming it.

  \<^verbatim>\<open>parse\<close> builds the pointer from the unescaped pieces directly, without
  \<^verbatim>\<open>fromSegments\<close>: the digit string of \<open>2^53\<close> becomes an integer segment that is not
  safe, while \<^verbatim>\<open>from\<close> on the same segment fails as the claim says.
\<close>

theorem parse_skips_range_check:
  "parse ''/9007199254740992'' = Inr [Num 9007199254740992]
   \<and> \<not> safe_segment (Num 9007199254740992)
   \<and> pointer_from (LikeSegments [RawStr ''9007199254740992''])
       = Inl (InvalidSyntaxError
               (''Invalid integer segment '' @ quoted ''9007199254740992'' @ ''.''))"
  by (simp add: parse_def unescapeSegment_def digits_only_def is_digit_def parseInt10_def
      digits_value_def digit_val_def safe_segment_def MAX_SAFE_INTEGER_def pointer_from_def
      normalizeSegment_def isSafeInteger_def is_negative_def show_number_def show_nat.simps
      digit_char_def quoted_def)

subsection \<open>Existence\<close>

text \<open>
  Claim C7: \<^verbatim>\<open>has\<close> never throws (it is a total boolean function: every failure of
  \<^verbatim>\<open>get\<close> is caught) and it is true exactly when \<^verbatim>\<open>get\<close> on the same pointer and value
  returns a value.
\<close>

theorem has_iff_get_succeeds: "has this root = (\<exists>v. get this root = Inr v)"
  by (cases "get this root") (simp_all add: has_def)

subsection \<open>Failures of a traversal step\<close>




subsection \<open>The effect of a mutation on the tree\<close>

lemma has_key_obj_set [simp]: "has_key k (obj_set k v kvs)"
  by (induction kvs) (auto simp: has_key_def)

lemma obj_get_obj_set [simp]: "obj_get k (obj_set k v kvs) = v"
  by (induction kvs) (auto simp: obj_get_def)

lemma walk_write_back:
  "walk p root = Some old \<Longrightarrow> walk p (write_back p new root) = Some new"
proof (induction p new root arbitrary: old rule: write_back.induct)
  case (1 new current)
  then show ?case by simp
next
  case (2 n rest new xs)
  then show ?case by (auto split: if_splits option.splits)
next
  case (3 k rest new kvs)
  then show ?case by (auto split: if_splits option.splits)
qed simp_all

lemma get_write_back:
  "get p root = Inr old \<Longrightarrow> get p (write_back p new root) = Inr new"
  by (simp add: get_walk walk_write_back)

lemma last_index: "this \<noteq> [] \<Longrightarrow> this ! (length this - 1) = last this"
  by (simp add: last_conv_nth)

subsection \<open>Writing into an array\<close>

text \<open>
  Claim C5: when \<^verbatim>\<open>set\<close> finds an array \<open>A\<close> at the parent location, the segment \<open>-\<close>
  appends the value to \<open>A\<close>, an integer segment equal to the length of \<open>A\<close> appends it too,
  a greater one fails with an out-of-bounds reference error, and a smaller one overwrites
  the element at that index. (The last line says what the tree returned is: the array at
  the parent location is the new one.)
\<close>

theorem set_in_array:
  assumes "this \<noteq> []" and "get (butlast this) root = Inr (JArray xs)"
  shows "(last this = Str ''-'' \<longrightarrow>
            pointer_set this root v = Inr (write_back (butlast this) (JArray (xs @ [v])) root))
       \<and> (last this = Num (length xs) \<longrightarrow>
            pointer_set this root v = Inr (write_back (butlast this) (JArray (xs @ [v])) root))
       \<and> (\<forall>n. last this = Num n \<and> n > length xs \<longrightarrow>
            pointer_set this root v = Inl (InvalidReferenceError
              (''Index '' @ show_nat n @ '' is out of bounds at ''
               @ quoted (toString (butlast this)) @ ''.'')))
       \<and> (\<forall>n. last this = Num n \<and> n < length xs \<longrightarrow>
            pointer_set this root v = Inr (write_back (butlast this) (JArray (xs[n := v])) root))
       \<and> (\<forall>ys. get (butlast this) (write_back (butlast this) (JArray ys) root) = Inr (JArray ys))"
proof -
  have seg: "this ! (length this - 1) = last this"
    using assms(1) by (rule last_index)
  have dash: "last this = Str ''-'' \<Longrightarrow>
      pointer_set this root v = Inr (write_back (butlast this) (JArray (xs @ [v])) root)"
    using assms seg by (simp add: pointer_set_def isRoot_def)
  have append: "last this = Num (length xs) \<Longrightarrow>
      pointer_set this root v = Inr (write_back (butlast this) (JArray (xs @ [v])) root)"
    using assms seg by (simp add: pointer_set_def isRoot_def arr_assign_def)
  have beyond: "last this = Num n \<Longrightarrow> n > length xs \<Longrightarrow>
      pointer_set this root v = Inl (InvalidReferenceError
        (''Index '' @ show_nat n @ '' is out of bounds at ''
         @ quoted (toString (butlast this)) @ ''.''))" for n
    using assms seg by (simp add: pointer_set_def isRoot_def)
  have inside: "last this = Num n \<Longrightarrow> n < length xs \<Longrightarrow>
      pointer_set this root v = Inr (write_back (butlast this) (JArray (xs[n := v])) root)" for n
    using assms seg by (simp add: pointer_set_def isRoot_def arr_assign_def)
  have stored: "get (butlast this) (write_back (butlast this) (JArray ys) root) = Inr (JArray ys)"
    for ys using assms(2) by (rule get_write_back)
  show ?thesis
    using dash append beyond inside stored by blast
qed


theorem set_in_array_witness:
  "get [Str ''foo''] (JObject [(''foo'', JArray [JString ''bar''])]) = Inr (JArray [JString ''bar''])
   \<and> pointer_set [Str ''foo'', Str ''-''] (JObject [(''foo'', JArray [JString ''bar''])])
         (JString ''baz'')
       = Inr (JObject [(''foo'', JArray [JString ''bar'', JString ''baz''])])
   \<and> pointer_set [Str ''foo'', Num 1] (JObject [(''foo'', JArray [JString ''bar''])])
         (JString ''baz'')
       = Inr (JObject [(''foo'', JArray [JString ''bar'', JString ''baz''])])
   \<and> pointer_set [Str ''foo'', Num 2] (JObject [(''foo'', JArray [JString ''bar''])])
         (JString ''baz'')
       = Inl (InvalidReferenceError (''Index 2 is out of bounds at '' @ quoted ''/foo'' @ ''.''))
   \<and> pointer_set [Str ''foo'', Num 0] (JObject [(''foo'', JArray [JString ''bar''])])
         (JString ''baz'')
       = Inr (JObject [(''foo'', JArray [JString ''baz''])])"
proof -
  let ?root = "JObject [(''foo'', JArray [JString ''bar''])]"
  have ne: "[Str ''foo'', y] \<noteq> []" for y by simp
  have g: "get (butlast [Str ''foo'', y]) ?root = Inr (JArray [JString ''bar''])" for y
    by (simp add: get_walk has_key_def obj_get_def)
  have at: "toString [Str ''foo''] = ''/foo''"
    by (simp add: toString_def isRoot_def escapeSegment_def)
  have two: "show_nat 2 = ''2''"
    by (simp add: show_nat.simps digit_char_def)
  have c1: "pointer_set [Str ''foo'', Str ''-''] ?root (JString ''baz'')
       = Inr (JObject [(''foo'', JArray [JString ''bar'', JString ''baz''])])"
    using set_in_array [OF ne g, of "Str ''-''" "JString ''baz''"]
    by (simp add: has_key_def obj_get_def)
  have c2: "pointer_set [Str ''foo'', Num 1] ?root (JString ''baz'')
       = Inr (JObject [(''foo'', JArray [JString ''bar'', JString ''baz''])])"
    using set_in_array [OF ne g, of "Num 1" "JString ''baz''"]
    by (simp add: has_key_def obj_get_def)
  have c3: "pointer_set [Str ''foo'', Num 2] ?root (JString ''baz'')
       = Inl (InvalidReferenceError (''Index 2 is out of bounds at '' @ quoted ''/foo'' @ ''.''))"
    using set_in_array [OF ne g, of "Num 2" "JString ''baz''"]
    by (simp add: at two)
  have c4: "pointer_set [Str ''foo'', Num 0] ?root (JString ''baz'')
       = Inr (JObject [(''foo'', JArray [JString ''baz''])])"
    using set_in_array [OF ne g, of "Num 0" "JString ''baz''"]
    by (simp add: has_key_def obj_get_def)
  show ?thesis
    using c1 c2 c3 c4 g [of "Str ''-''"] by simp
qed

subsection \<open>Deleting\<close>




subsection \<open>Density\<close>

lemma dense_nth:
  "dense (JArray xs) \<Longrightarrow> n < length xs \<Longrightarrow> dense (xs ! n) \<and> xs ! n \<noteq> JUndefined"
  by (simp add: list_all_length)

lemma dense_obj_get: "dense (JObject kvs) \<Longrightarrow> has_key k kvs \<Longrightarrow> dense (obj_get k kvs)"
proof -
  assume d: "dense (JObject kvs)" and h: "has_key k kvs"
  from h have "map_of kvs k \<noteq> None"
    by (simp add: has_key_def map_of_eq_None_iff)
  then obtain v where m: "map_of kvs k = Some v" by blast
  then have "(k, v) \<in> set kvs" by (rule map_of_SomeD)
  with d have "dense v" by (auto simp: list_all_iff)
  with m show ?thesis by (simp add: obj_get_def)
qed

lemma dense_walk_step: "dense current \<Longrightarrow> walk_step s current = Some v \<Longrightarrow> dense v"
  by (cases "(s, current)" rule: walk_step.cases)
     (auto simp: dense_nth dense_obj_get simp del: dense.simps split: if_splits)

lemma dense_walk: "dense root \<Longrightarrow> walk p root = Some v \<Longrightarrow> dense v"
proof (induction p arbitrary: root)
  case Nil
  then show ?case by simp
next
  case (Cons s p)
  from Cons.prems(2) obtain nxt where n: "walk_step s root = Some nxt" "walk p nxt = Some v"
    by (auto split: option.splits)
  from Cons.prems(1) n(1) have "dense nxt" by (rule dense_walk_step)
  then show ?case using n(2) by (rule Cons.IH)
qed

lemma dense_obj_set:
  "dense (JObject kvs) \<Longrightarrow> dense v \<Longrightarrow> dense (JObject (obj_set k v kvs))"
  by (induction kvs) auto

lemma dense_obj_delete: "dense (JObject kvs) \<Longrightarrow> dense (JObject (obj_delete k kvs))"
  by (simp add: obj_delete_def list_all_iff)

lemma dense_arr_assign:
  "dense (JArray xs) \<Longrightarrow> dense v \<Longrightarrow> v \<noteq> JUndefined \<Longrightarrow> n \<le> length xs \<Longrightarrow>
   dense (JArray (arr_assign xs n v))"
  by (auto simp: arr_assign_def list_all_iff dest: set_update_subset_insert [THEN subsetD])

lemma dense_arr_splice1: "dense (JArray xs) \<Longrightarrow> dense (JArray (arr_splice1 xs n))"
  by (auto simp: arr_splice1_def list_all_iff dest: in_set_takeD in_set_dropD)

lemma write_back_defined:
  "new \<noteq> JUndefined \<Longrightarrow> current \<noteq> JUndefined \<Longrightarrow> write_back p new current \<noteq> JUndefined"
  by (induction p new current rule: write_back.induct) auto

lemma dense_write_back:
  "dense root \<Longrightarrow> dense new \<Longrightarrow> new \<noteq> JUndefined \<Longrightarrow> dense (write_back p new root)"
proof (induction p new root rule: write_back.induct)
  case (1 new current)
  then show ?case by simp
next
  case (2 n rest new xs)
  show ?case
  proof (cases "n < length xs")
    case True
    with "2.prems"(1) have el: "dense (xs ! n)" "xs ! n \<noteq> JUndefined"
      using dense_nth by blast+
    have d: "dense (write_back rest new (xs ! n))"
      using "2.IH" [OF True el(1) "2.prems"(2,3)] .
    have u: "write_back rest new (xs ! n) \<noteq> JUndefined"
      using "2.prems"(3) el(2) by (rule write_back_defined)
    have "list_all (\<lambda>x. x \<noteq> JUndefined \<and> dense x) (xs[n := write_back rest new (xs ! n)])"
      using "2.prems"(1) d u
      by (auto simp: list_all_iff dest: set_update_subset_insert [THEN subsetD])
    with True show ?thesis by simp
  next
    case False
    with "2.prems"(1) show ?thesis by simp
  qed
next
  case (3 k rest new kvs)
  show ?case
  proof (cases "has_key k kvs")
    case True
    have "dense (obj_get k kvs)" using "3.prems"(1) True by (rule dense_obj_get)
    then have "dense (write_back rest new (obj_get k kvs))"
      using "3.IH" [OF True] "3.prems"(2,3) by simp
    with "3.prems"(1) have "dense (JObject (obj_set k (write_back rest new (obj_get k kvs)) kvs))"
      by (rule dense_obj_set)
    with True show ?thesis by simp
  next
    case False
    with "3.prems"(1) show ?thesis by simp
  qed
qed simp_all


lemma pointer_set_result:
  assumes "pointer_set this root v = Inr tree"
  shows "\<exists>parent new. get (butlast this) root = Inr parent
           \<and> tree = write_back (butlast this) new root
           \<and> ((\<exists>xs. parent = JArray xs
                  \<and> (new = JArray (xs @ [v])
                      \<or> (\<exists>n\<le>length xs. new = JArray (arr_assign xs n v))))
               \<or> (\<exists>kvs k. parent = JObject kvs \<and> new = JObject (obj_set k v kvs)))"
proof (cases "get (butlast this) root")
  case (Inl e)
  with assms show ?thesis by (simp add: pointer_set_def split: if_splits)
next
  case (Inr parent)
  show ?thesis
  proof (cases parent)
    case (JArray xs)
    with assms Inr
    have "tree = write_back (butlast this) (JArray (xs @ [v])) root
        \<or> (\<exists>n\<le>length xs. tree = write_back (butlast this) (JArray (arr_assign xs n v)) root)"
      by (fastforce simp: pointer_set_def Let_def not_less split: if_splits segment.splits)
    with Inr JArray show ?thesis by blast
  next
    case (JObject kvs)
    with assms Inr
    have "\<exists>k. tree = write_back (butlast this) (JObject (obj_set k v kvs)) root"
      by (auto simp: pointer_set_def Let_def split: if_splits segment.splits)
    with Inr JObject show ?thesis by blast
  qed (use assms Inr in \<open>simp_all add: pointer_set_def split: if_splits\<close>)
qed

lemma unset_result:
  assumes "unset this root = Inr (tree, r)"
  shows "tree = root
       \<or> (\<exists>parent new. get (butlast this) root = Inr parent
             \<and> tree = write_back (butlast this) new root
             \<and> ((\<exists>xs n. parent = JArray xs \<and> new = JArray (arr_splice1 xs n))
                 \<or> (\<exists>kvs k. parent = JObject kvs \<and> new = JObject (obj_delete k kvs))))"
proof (cases "get (butlast this) root")
  case (Inl e)
  with assms show ?thesis by (simp add: unset_def split: if_splits)
next
  case (Inr parent)
  show ?thesis
  proof (cases parent)
    case (JArray xs)
    with assms Inr
    have "tree = root
        \<or> (\<exists>n. tree = write_back (butlast this) (JArray (arr_splice1 xs n)) root)"
      by (auto simp: unset_def split: if_splits segment.splits)
    with Inr JArray show ?thesis by blast
  next
    case (JObject kvs)
    with assms Inr
    have "tree = root
        \<or> (\<exists>k. tree = write_back (butlast this) (JObject (obj_delete k kvs)) root)"
      by (auto simp: unset_def split: if_splits segment.splits)
    with Inr JObject show ?thesis by blast
  qed (use assms Inr in \<open>simp_all add: unset_def split: if_splits\<close>)
qed

lemma dense_pointer_set:
  assumes "dense root" and "dense v" and "v \<noteq> JUndefined"
    and "pointer_set this root v = Inr tree"
  shows "dense tree"
proof -
  from pointer_set_result [OF assms(4)] obtain parent new where
    p: "get (butlast this) root = Inr parent" and t: "tree = write_back (butlast this) new root"
    and n: "(\<exists>xs. parent = JArray xs
                  \<and> (new = JArray (xs @ [v])
                      \<or> (\<exists>n\<le>length xs. new = JArray (arr_assign xs n v))))
               \<or> (\<exists>kvs k. parent = JObject kvs \<and> new = JObject (obj_set k v kvs))"
    by blast
  have dp: "dense parent"
    using assms(1) p by (auto simp: get_walk dest: dense_walk)
  have "dense new \<and> new \<noteq> JUndefined"
    using n
  proof (elim disjE exE conjE)
    fix xs assume "parent = JArray xs" "new = JArray (xs @ [v])"
    with dp assms(2,3) show ?thesis by simp
  next
    fix xs n assume "parent = JArray xs" "n \<le> length xs" "new = JArray (arr_assign xs n v)"
    with dp assms(2,3) show ?thesis using dense_arr_assign by blast
  next
    fix kvs k assume "parent = JObject kvs" "new = JObject (obj_set k v kvs)"
    with dp assms(2) show ?thesis using dense_obj_set by blast
  qed
  with assms(1) t show ?thesis by (simp add: dense_write_back)
qed

lemma dense_unset:
  assumes "dense root" and "unset this root = Inr (tree, r)"
  shows "dense tree"
proof -
  from unset_result [OF assms(2)] show ?thesis
  proof (elim disjE exE conjE)
    assume "tree = root"
    with assms(1) show ?thesis by simp
  next
    fix parent new xs n
    assume p: "get (butlast this) root = Inr parent" "tree = write_back (butlast this) new root"
      "parent = JArray xs" "new = JArray (arr_splice1 xs n)"
    have "dense parent" using assms(1) p(1) by (auto simp: get_walk dest: dense_walk)
    with p(3,4) have "dense new \<and> new \<noteq> JUndefined" using dense_arr_splice1 by blast
    with assms(1) p(2) show ?thesis by (simp add: dense_write_back)
  next
    fix parent new kvs k
    assume p: "get (butlast this) root = Inr parent" "tree = write_back (butlast this) new root"
      "parent = JObject kvs" "new = JObject (obj_delete k kvs)"
    have "dense parent" using assms(1) p(1) by (auto simp: get_walk dest: dense_walk)
    with p(3,4) have "dense new \<and> new \<noteq> JUndefined" using dense_obj_delete by blast
    with assms(1) p(2) show ?thesis by (simp add: dense_write_back)
  qed
qed

lemma unset_array_element:
  assumes "this \<noteq> []" and "get (butlast this) root = Inr (JArray xs)"
    and "last this = Num n" and "n < length xs"
  shows "unset this root
         = Inr (write_back (butlast this) (JArray (take n xs @ drop (Suc n) xs)) root,
                Some (xs ! n))"
  using assms last_index [OF assms(1)] by (simp add: unset_def isRoot_def arr_splice1_def)

lemma nth_splice1:
  "n < length xs \<Longrightarrow> j < length xs - 1 \<Longrightarrow>
   (take n xs @ drop (Suc n) xs) ! j = (if j < n then xs ! j else xs ! Suc j)"
  by (auto simp: nth_append min_def)

text \<open>
  Claim C4: in a tree all of whose arrays are dense, every array is still dense after a
  call of \<^verbatim>\<open>set\<close> (with a JSON value) or of \<^verbatim>\<open>unset\<close>; and \<^verbatim>\<open>unset\<close> on an index of an
  array removes that element and moves the elements after it down by one.
\<close>

theorem density_preserved:
  assumes "dense root"
  shows "(\<forall>tree. dense v \<and> v \<noteq> JUndefined \<and> pointer_set this root v = Inr tree \<longrightarrow> dense tree)
       \<and> (\<forall>tree r. unset this root = Inr (tree, r) \<longrightarrow> dense tree)
       \<and> (\<forall>xs n. this \<noteq> [] \<and> get (butlast this) root = Inr (JArray xs)
              \<and> last this = Num n \<and> n < length xs \<longrightarrow>
            unset this root
              = Inr (write_back (butlast this) (JArray (take n xs @ drop (Suc n) xs)) root,
                     Some (xs ! n))
            \<and> get (butlast this)
                 (write_back (butlast this) (JArray (take n xs @ drop (Suc n) xs)) root)
              = Inr (JArray (take n xs @ drop (Suc n) xs))
            \<and> length (take n xs @ drop (Suc n) xs) = length xs - 1
            \<and> (\<forall>j<length xs - 1.
                 (take n xs @ drop (Suc n) xs) ! j = (if j < n then xs ! j else xs ! Suc j)))"
proof -
  have a: "dense v \<Longrightarrow> v \<noteq> JUndefined \<Longrightarrow> pointer_set this root v = Inr tree \<Longrightarrow> dense tree"
    for tree using assms by (rule dense_pointer_set)
  have b: "unset this root = Inr (tree, r) \<Longrightarrow> dense tree" for tree r
    using assms by (rule dense_unset)
  have c: "unset this root
              = Inr (write_back (butlast this) (JArray (take n xs @ drop (Suc n) xs)) root,
                     Some (xs ! n))
            \<and> get (butlast this)
                 (write_back (butlast this) (JArray (take n xs @ drop (Suc n) xs)) root)
              = Inr (JArray (take n xs @ drop (Suc n) xs))
            \<and> length (take n xs @ drop (Suc n) xs) = length xs - 1
            \<and> (\<forall>j<length xs - 1.
                 (take n xs @ drop (Suc n) xs) ! j = (if j < n then xs ! j else xs ! Suc j))"
    if h: "this \<noteq> []" "get (butlast this) root = Inr (JArray xs)" "last this = Num n"
      "n < length xs" for xs n
  proof (intro conjI)
    show "unset this root
          = Inr (write_back (butlast this) (JArray (take n xs @ drop (Suc n) xs)) root,
                 Some (xs ! n))"
      using h by (rule unset_array_element)
    show "get (butlast this)
            (write_back (butlast this) (JArray (take n xs @ drop (Suc n) xs)) root)
          = Inr (JArray (take n xs @ drop (Suc n) xs))"
      using h(2) by (rule get_write_back)
    show "length (take n xs @ drop (Suc n) xs) = length xs - 1"
      using h(4) by simp
    show "\<forall>j<length xs - 1.
            (take n xs @ drop (Suc n) xs) ! j = (if j < n then xs ! j else xs ! Suc j)"
      using h(4) nth_splice1 by blast
  qed
  show ?thesis
    using a b c by blast
qed


theorem density_preserved_witness:
  "dense (JObject [(''a'', JArray [JNumber 1, JNumber 2]), (''b'', JObject [])])
   \<and> pointer_set [Str ''a'', Str ''-'']
         (JObject [(''a'', JArray [JNumber 1, JNumber 2]), (''b'', JObject [])]) (JNumber 3)
       = Inr (JObject [(''a'', JArray [JNumber 1, JNumber 2, JNumber 3]), (''b'', JObject [])])
   \<and> dense (JObject [(''a'', JArray [JNumber 1, JNumber 2, JNumber 3]), (''b'', JObject [])])
   \<and> get [Str ''a''] (JObject [(''a'', JArray [JNumber 1, JNumber 2]), (''b'', JObject [])])
       = Inr (JArray [JNumber 1, JNumber 2])
   \<and> unset [Str ''a'', Num 0]
         (JObject [(''a'', JArray [JNumber 1, JNumber 2]), (''b'', JObject [])])
       = Inr (JObject [(''a'', JArray [JNumber 2]), (''b'', JObject [])], Some (JNumber 1))
   \<and> dense (JObject [(''a'', JArray [JNumber 2]), (''b'', JObject [])])"
proof -
  let ?root = "JObject [(''a'', JArray [JNumber 1, JNumber 2]), (''b'', JObject [])]"
  have d: "dense ?root" by simp
  have s: "pointer_set [Str ''a'', Str ''-''] ?root (JNumber 3)
       = Inr (JObject [(''a'', JArray [JNumber 1, JNumber 2, JNumber 3]), (''b'', JObject [])])"
    by code_simp
  have v: "dense (JNumber 3) \<and> JNumber 3 \<noteq> JUndefined" by simp
  have g: "get (butlast [Str ''a'', Num 0]) ?root = Inr (JArray [JNumber 1, JNumber 2])"
    by (simp add: get_walk has_key_def obj_get_def)
  have i: "[Str ''a'', Num 0] \<noteq> [] \<and> last [Str ''a'', Num 0] = Num 0
           \<and> (0::nat) < length [JNumber 1, JNumber 2]" by simp
  have u: "unset [Str ''a'', Num 0] ?root
       = Inr (JObject [(''a'', JArray [JNumber 2]), (''b'', JObject [])], Some (JNumber 1))"
    using density_preserved [OF d, of "JNumber 3" "[Str ''a'', Num 0]"] g i
    by (simp add: has_key_def obj_get_def)
  have d1: "dense (JObject [(''a'', JArray [JNumber 1, JNumber 2, JNumber 3]), (''b'', JObject [])])"
    using density_preserved [OF d, of "JNumber 3" "[Str ''a'', Str ''-'']"] s v by blast
  have d2: "dense (JObject [(''a'', JArray [JNumber 2]), (''b'', JObject [])])"
    using density_preserved [OF d, of "JNumber 3" "[Str ''a'', Num 0]"] u by blast
  show ?thesis
    using d s d1 g u d2 by simp
qed

subsection \<open>Valid pointers pass through \<^verbatim>\<open>from\<close> unchanged\<close>

lemma raw_of_simps [simp]:
  "raw_of (Num n) = RawNum (Integer (int n))"
  "raw_of (Str k) = RawStr k"
  by (simp_all add: raw_of_def)

lemma normalizeSegment_raw_of:
  "valid_segment s \<Longrightarrow> normalizeSegment (raw_of s) = raw_of s"
  by (cases s) (simp_all add: valid_segment_def normalizeSegment_def)

lemma fromSegments_raw_of:
  "valid_pointer p \<Longrightarrow> fromSegments (map raw_of p) = Inr p"
proof (induction p)
  case Nil
  then show ?case by simp
next
  case (Cons s p)
  then have ih: "fromSegments (map raw_of p) = Inr p" and v: "valid_segment s"
    by (simp_all add: valid_pointer_def)
  show ?case
  proof (cases s)
    case (Num n)
    with v ih show ?thesis
      by (simp add: valid_segment_def is_negative_def isSafeInteger_def)
  next
    case (Str k)
    with ih show ?thesis by simp
  qed
qed

lemma map_normalizeSegment_raw_of:
  "valid_pointer p \<Longrightarrow> map normalizeSegment (map raw_of p) = map raw_of p"
  by (induction p) (simp_all add: valid_pointer_def normalizeSegment_raw_of)

lemma pointer_from_valid:
  "valid_pointer p \<Longrightarrow> pointer_from (LikeSegments (map raw_of p)) = Inr p"
  by (simp add: pointer_from_def map_normalizeSegment_raw_of fromSegments_raw_of
      del: map_map)

lemma valid_pointer_append:
  "valid_pointer (a @ b) \<longleftrightarrow> valid_pointer a \<and> valid_pointer b"
  by (simp add: valid_pointer_def)

lemma valid_pointer_take: "valid_pointer p \<Longrightarrow> valid_pointer (take n p)"
  by (auto simp: valid_pointer_def list_all_iff dest: in_set_takeD)

lemma valid_pointer_tl: "valid_pointer p \<Longrightarrow> valid_pointer (tl p)"
  by (cases p) (simp_all add: valid_pointer_def)

subsection \<open>What the constructors establish\<close>

text \<open>
  The hypotheses \<open>valid_pointer\<close> and \<open>valid_relative\<close> of the theorems on relative pointers
  are what the constructors guarantee: \<^verbatim>\<open>from\<close> on segments or on a number, and
  \<^verbatim>\<open>JsonRelativePointer.parse\<close>, return valid pointers only; \<^verbatim>\<open>JsonPointer.parse\<close> returns
  pointers whose string segments are valid, and does not check its integer segments.
  When \<^verbatim>\<open>fromSegments\<close> fails, the error names a number of the list that is negative or
  not a safe integer.
\<close>

lemma equals_iff: "equals this other \<longleftrightarrow> this = other"
  by (auto simp: equals_def list_all_iff intro: nth_equalityI)

lemma show_nat_digits: "digits_only (show_nat n)"
proof (induction n rule: show_nat.induct)
  case (1 n)
  have d: "is_digit (digit_char k)" if "k < 10" for k
  proof -
    from that have "k \<in> {0, 1, 2, 3, 4, 5, 6, 7, 8, 9}" by auto
    then show ?thesis by (auto simp: digit_char_def is_digit_def)
  qed
  show ?case
  proof (cases "n < 10")
    case True
    then show ?thesis by (subst show_nat.simps) (simp add: digits_only_def d)
  next
    case False
    with "1.IH" have "digits_only (show_nat (n div 10))" by simp
    with False show ?thesis
      by (subst show_nat.simps) (simp add: digits_only_def d)
  qed
qed

lemma fromSegments_safe: "fromSegments raw = Inr p \<Longrightarrow> list_all safe_segment p"
proof (induction raw arbitrary: p rule: fromSegments.induct)
  case 1
  then show ?case by simp
next
  case (2 x rest)
  then show ?case
    by (cases x)
       (auto simp: safe_segment_def is_negative_def isSafeInteger_def
             split: if_splits sum.splits)
next
  case (3 s rest)
  then show ?case by (auto simp: safe_segment_def split: sum.splits)
qed

lemma fromSegments_error:
  "fromSegments raw = Inl e \<Longrightarrow>
   \<exists>x. RawNum x \<in> set raw \<and> (is_negative x \<or> \<not> isSafeInteger x)
     \<and> e = InvalidSyntaxError (''Invalid integer segment '' @ quoted (show_number x) @ ''.'')"
proof (induction raw rule: fromSegments.induct)
  case 1
  then show ?case by simp
next
  case (2 x rest)
  show ?case
  proof (cases "is_negative x \<or> \<not> isSafeInteger x")
    case True
    with "2.prems" show ?thesis by auto
  next
    case False
    with "2.prems" have "fromSegments rest = Inl e" by (auto split: sum.splits)
    with False "2.IH" show ?thesis by auto
  qed
next
  case (3 s rest)
  then have "fromSegments rest = Inl e" by (auto split: sum.splits)
  with "3.IH" show ?case by auto
qed

lemma fromSegments_numbers:
  "fromSegments raw = Inr p \<Longrightarrow> RawNum x \<in> set raw \<Longrightarrow>
   \<not> is_negative x \<and> isSafeInteger x"
  by (induction raw arbitrary: p rule: fromSegments.induct)
     (auto split: if_splits sum.splits)

lemma fromSegments_strings:
  "fromSegments raw = Inr p \<Longrightarrow> Str k \<in> set p \<Longrightarrow> RawStr k \<in> set raw"
proof (induction raw arbitrary: p rule: fromSegments.induct)
  case 1
  then show ?case by simp
next
  case (2 x rest)
  then show ?case by (auto split: if_splits sum.splits)
next
  case (3 s rest)
  then show ?case by (auto split: sum.splits)
qed

lemma normalizeSegment_string:
  "normalizeSegment seg = RawStr k \<Longrightarrow> \<not> digits_only k"
  by (cases seg) (auto simp: normalizeSegment_def split: if_splits)

lemma pointer_from_segments_valid:
  assumes "pointer_from (LikeSegments segs) = Inr p"
  shows "valid_pointer p"
proof -
  from assms have f: "fromSegments (map normalizeSegment segs) = Inr p"
    by (simp add: pointer_from_def)
  have "valid_segment s" if "s \<in> set p" for s
  proof (cases s)
    case (Num n)
    with that fromSegments_safe [OF f] show ?thesis
      by (auto simp: list_all_iff safe_segment_def valid_segment_def)
  next
    case (Str k)
    with that fromSegments_strings [OF f] have "RawStr k \<in> set (map normalizeSegment segs)"
      by simp
    then obtain seg where "normalizeSegment seg = RawStr k" by auto
    then have "\<not> digits_only k" by (rule normalizeSegment_string)
    with Str show ?thesis by (simp add: valid_segment_def)
  qed
  then show ?thesis by (simp add: valid_pointer_def list_all_iff)
qed

lemma pointer_from_number_valid:
  "pointer_from (LikeNumber x) = Inr p \<Longrightarrow> valid_pointer p"
  by (cases x)
     (auto simp: pointer_from_def valid_pointer_def valid_segment_def is_negative_def
           isSafeInteger_def split: if_splits)

lemma joinedWith_safe:
  "joinedWith this other = Inr p \<Longrightarrow> p = this \<or> list_all safe_segment p"
  by (auto simp: joinedWith_def split: sum.splits if_splits dest: fromSegments_safe)


lemma replace_all2_digits:
  "\<not> is_digit c \<Longrightarrow> list_all is_digit (replace_all2 a b [c] s) \<Longrightarrow>
   replace_all2 a b [c] s = s"
  by (induction a b "[c]" s rule: replace_all2.induct) (auto split: if_splits)

lemma replace_all2_absent: "a \<notin> set s \<Longrightarrow> replace_all2 a b r s = s"
  by (induction a b r s rule: replace_all2.induct) auto

lemma unescapeSegment_string:
  assumes "unescapeSegment s = Str k"
  shows "\<not> digits_only k"
proof
  assume d: "digits_only k"
  from assms have nd: "\<not> digits_only s"
    and k: "k = replace_all2 CHR ''~'' CHR ''0'' ''~'' (replace_all2 CHR ''~'' CHR ''1'' ''/'' s)"
    by (auto simp: unescapeSegment_def split: if_splits)
  have t: "\<not> is_digit CHR ''~''" and sl: "\<not> is_digit CHR ''/''"
    by (simp_all add: is_digit_def)
  from d k have "k = replace_all2 CHR ''~'' CHR ''1'' ''/'' s"
    using replace_all2_digits [OF t] by (simp add: digits_only_def)
  with d have "k = s"
    using replace_all2_digits [OF sl] by (simp add: digits_only_def)
  with d nd show False by simp
qed

lemma parse_strings_valid:
  "parse path = Inr p \<Longrightarrow> Str k \<in> set p \<Longrightarrow> \<not> digits_only k"
  by (auto simp: parse_def ROOT_SINGLETON_def split: if_splits
           dest: unescapeSegment_string [OF sym])

lemma split_on_hd:
  "split_on c s \<noteq> [] \<and> hd (split_on c s) = takeWhile (\<lambda>x. x \<noteq> c) s"
  by (induction s) (auto split: list.splits)

lemma origin_token_digits: "digits_only s \<Longrightarrow> origin_token s"
proof -
  assume d: "digits_only s"
  then have all: "list_all is_digit s" and ne: "s \<noteq> []" by (simp_all add: digits_only_def)
  from all ne have "is_digit (last s)" by (simp add: list_all_iff)
  then have "last s \<noteq> CHR ''#''" by (auto simp: is_digit_def)
  then have st: "strip_hash s = s" by (simp add: strip_hash_def)
  from all have t: "takeWhile is_digit s = s" "dropWhile is_digit s = []"
    by (simp_all add: list_all_iff takeWhile_eq_all_conv)
  show ?thesis unfolding origin_token_def Let_def st t using ne by simp
qed

lemma origin_token_no_tilde:
  assumes "origin_token s"
  shows "CHR ''~'' \<notin> set s"
proof
  assume tilde: "CHR ''~'' \<in> set s"
  let ?t = "strip_hash s"
  let ?r = "dropWhile is_digit ?t"
  have nd: "\<not> is_digit CHR ''~''" by (simp add: is_digit_def)
  have "set s \<subseteq> set ?t \<union> {CHR ''#''}"
  proof (cases "s \<noteq> [] \<and> last s = CHR ''#''")
    case True
    then have "s = butlast s @ [CHR ''#'']" by (metis append_butlast_last_id)
    then have "set s = set (butlast s) \<union> {CHR ''#''}" by (metis set_append list.set(1,2) Un_insert_right sup_bot_right)
    with True show ?thesis by (simp add: strip_hash_def)
  next
    case False
    then show ?thesis by (auto simp: strip_hash_def)
  qed
  with tilde have "CHR ''~'' \<in> set ?t" by auto
  then have "CHR ''~'' \<in> set (takeWhile is_digit ?t) \<or> CHR ''~'' \<in> set ?r"
    by (metis Un_iff set_append takeWhile_dropWhile_id)
  moreover have "CHR ''~'' \<notin> set (takeWhile is_digit ?t)"
    using nd set_takeWhileD by fastforce
  ultimately have in_r: "CHR ''~'' \<in> set ?r" by blast
  then have "?r \<noteq> []" by (cases ?r) simp_all
  moreover from assms
  have "?r = [] \<or> ((hd ?r = CHR ''+'' \<or> hd ?r = CHR ''-'') \<and> digits_only (tl ?r))"
    unfolding origin_token_def Let_def by (rule conjunct2)
  ultimately have sign: "hd ?r = CHR ''+'' \<or> hd ?r = CHR ''-''" and ds: "digits_only (tl ?r)"
    by blast+
  from \<open>?r \<noteq> []\<close> have "set ?r = insert (hd ?r) (set (tl ?r))"
    by (metis list.collapse list.simps(15))
  with in_r sign have "CHR ''~'' \<in> set (tl ?r)" by auto
  with ds nd show False by (auto simp: digits_only_def list_all_iff)
qed

lemma normalized_number:
  "Num n \<in> set q \<Longrightarrow> RawNum (Integer (int n)) \<in> set (map normalizeSegment (map raw_of q))"
  by (induction q) (auto simp: normalizeSegment_def)

lemma relative_parse_valid:
  assumes "relative_parse path = Inr this"
  shows "valid_relative this"
proof -
  let ?tok = "takeWhile (\<lambda>c. c \<noteq> CHR ''/'') path"
  let ?p = "map unescapeSegment (split_on CHR ''/'' path)"
  from assms have tok: "origin_token ?tok"
    and p: "parse (CHR ''/'' # path) = Inr ?p"
    and f: "pointer_from (LikeSegments (map raw_of ?p)) = Inr this"
    by (auto simp: relative_parse_def relative_fromSegments_def parse_def
             split: if_splits sum.splits)
  from f have fs: "fromSegments (map normalizeSegment (map raw_of ?p)) = Inr this"
    by (simp add: pointer_from_def)
  have "valid_segment s" if "s \<in> set ?p" for s
  proof (cases s)
    case (Num n)
    with that have "RawNum (Integer (int n)) \<in> set (map normalizeSegment (map raw_of ?p))"
      by (intro normalized_number) simp
    with fs have "isSafeInteger (Integer (int n))"
      using fromSegments_numbers by blast
    with Num show ?thesis by (simp add: valid_segment_def isSafeInteger_def)
  next
    case (Str k)
    with that p have "\<not> digits_only k" using parse_strings_valid by blast
    with Str show ?thesis by (simp add: valid_segment_def)
  qed
  then have vp: "valid_pointer ?p" by (simp add: valid_pointer_def list_all_iff)
  from f pointer_from_valid [OF vp] have this_p: "this = ?p" by simp
  have ne: "?p \<noteq> []" using split_on_hd [of "CHR ''/''" path] by simp
  have hd_p: "hd ?p = unescapeSegment ?tok"
    using split_on_hd [of "CHR ''/''" path] by (simp add: hd_map)
  have "origin_token (origin_text ?p)"
  proof (cases "digits_only ?tok")
    case True
    then have "hd ?p = Num (parseInt10 ?tok)" by (simp add: hd_p unescapeSegment_def)
    with ne have "origin_text ?p = show_nat (parseInt10 ?tok)"
      by (cases ?p) (simp_all add: origin_text_def segment_text_def)
    then show ?thesis by (simp add: origin_token_digits show_nat_digits)
  next
    case False
    from origin_token_no_tilde [OF tok]
    have "replace_all2 CHR ''~'' CHR ''0'' ''~'' (replace_all2 CHR ''~'' CHR ''1'' ''/'' ?tok) = ?tok"
      by (simp add: replace_all2_absent)
    with False have "hd ?p = Str ?tok" by (simp add: hd_p unescapeSegment_def)
    with ne have "origin_text ?p = ?tok"
      by (cases ?p) (simp_all add: origin_text_def segment_text_def)
    with tok show ?thesis by simp
  qed
  with vp ne this_p show ?thesis by (simp add: valid_relative_def)
qed

lemma valid_pointer_normal: "valid_pointer p \<Longrightarrow> normal_strings p"
  by (auto simp: valid_pointer_def normal_strings_def valid_segment_def list_all_iff
           split: segment.splits)

lemma parse_normal_strings: "parse path = Inr p \<Longrightarrow> normal_strings p"
  using parse_strings_valid [of path p]
  by (auto simp: normal_strings_def list_all_iff split: segment.splits)

subsection \<open>Resolving a relative pointer against a base pointer\<close>

text \<open>
  Claim C8, as amended: for a relative pointer that is not a key pointer and has no
  offset, with parent index \<open>N\<close>, and a base pointer of depth \<open>D\<close> whose integer segments
  are safe integers (\<open>valid_pointer\<close>, which \<^verbatim>\<open>from\<close> guarantees): \<^verbatim>\<open>resolve\<close> fails as
  out of bounds exactly when \<open>N\<close> exceeds \<open>D\<close>, and otherwise returns the base pointer
  without its last \<open>N\<close> segments, followed by the segments after the origin token.
  (\<open>valid_relative\<close> holds of every relative pointer, see \<open>relative_parse_valid\<close>.)
\<close>

theorem resolve_truncates_and_appends:
  assumes "valid_relative this" and "\<not> isKeyPointer this"
    and "getParentIndexOffset this = 0" and "valid_pointer base"
  shows "resolve this (LikePointer base) =
           (if getParentIndex this > getDepth base
            then Inl (JsonPointerError ''The relative pointer is out of bounds.'')
            else Inr (take (getDepth base - getParentIndex this) base @ tl this))"
proof (cases "getParentIndex this > length base")
  case True
  with assms(2,3) show ?thesis
    by (simp add: resolve_def pointer_from_def getDepth_def)
next
  case False
  have rest: "valid_pointer (tl this)"
    using assms(1) by (simp add: valid_relative_def valid_pointer_tl)
  have kept: "valid_pointer (take (length base - getParentIndex this) base)"
    using assms(4) by (rule valid_pointer_take)
  have "pointer_from (LikeSegments (map raw_of
          (take (length base - getParentIndex this) base @ tl this)))
        = Inr (take (length base - getParentIndex this) base @ tl this)"
    using rest kept by (intro pointer_from_valid) (simp add: valid_pointer_append)
  moreover have "(if getParentIndex this > 0
                  then take (length base - getParentIndex this) base else base)
                 = take (length base - getParentIndex this) base"
    by simp
  ultimately show ?thesis
    using False assms(2,3)
    by (simp add: resolve_def pointer_from_def [of "LikePointer base"] getDepth_def Let_def)
qed


lemma origin_of_number:
  "origin_text (Num 0 # rest) = ''0''" "origin_text (Num 2 # rest) = ''2''"
  "origin_text (Num 3 # rest) = ''3''"
  by (simp_all add: origin_text_def segment_text_def show_nat.simps digit_char_def)

theorem resolve_truncates_and_appends_witness:
  "relative_parse ''0'' = Inr [Num 0]
   \<and> parse ''/foo/bar'' = Inr [Str ''foo'', Str ''bar'']
   \<and> valid_relative [Num 0] \<and> \<not> isKeyPointer [Num 0] \<and> getParentIndexOffset [Num 0] = 0
   \<and> valid_pointer [Str ''foo'', Str ''bar'']
   \<and> resolve [Num 0] (LikePointer [Str ''foo'', Str ''bar'']) = Inr [Str ''foo'', Str ''bar'']
   \<and> equals [Str ''foo'', Str ''bar''] [Str ''foo'', Str ''bar'']
   \<and> resolve [Num 2, Str ''qux''] (LikePointer [Str ''foo'', Str ''bar'', Str ''quz''])
       = Inr [Str ''foo'', Str ''qux'']
   \<and> resolve [Num 3] (LikePointer [Str ''foo'', Str ''bar''])
       = Inl (JsonPointerError ''The relative pointer is out of bounds.'')"
proof -
  have vp: "valid_pointer [Str ''foo'', Str ''bar'']" "valid_pointer [Str ''foo'', Str ''bar'', Str ''quz'']"
    by (simp_all add: valid_pointer_def valid_segment_def digits_only_def is_digit_def)
  have vr: "valid_relative [Num 0]" "valid_relative [Num 2, Str ''qux'']" "valid_relative [Num 3]"
    by (simp_all add: valid_relative_def valid_pointer_def valid_segment_def MAX_SAFE_INTEGER_def
        digits_only_def is_digit_def origin_of_number origin_token_def strip_hash_def)
  have nk: "\<not> isKeyPointer [Num 0]" "\<not> isKeyPointer [Num 2, Str ''qux'']" "\<not> isKeyPointer [Num 3]"
    by (simp_all add: isKeyPointer_def origin_of_number)
  have no: "getParentIndexOffset [Num 0] = 0" "getParentIndexOffset [Num 2, Str ''qux''] = 0"
    "getParentIndexOffset [Num 3] = 0"
    by (simp_all add: getParentIndexOffset_def offset_match_def origin_of_number strip_hash_def
        is_digit_def)
  have pi: "getParentIndex [Num 0] = 0" "getParentIndex [Num 2, Str ''qux''] = 2"
    "getParentIndex [Num 3] = 3"
    by (simp_all add: getParentIndex_def parseInt10_def digits_value_def digit_val_def
        origin_of_number is_digit_def)
  have p1: "relative_parse ''0'' = Inr [Num 0]"
    by (simp add: relative_parse_def origin_token_def strip_hash_def is_digit_def parse_def
        unescapeSegment_def digits_only_def parseInt10_def digits_value_def digit_val_def
        relative_fromSegments_def pointer_from_def normalizeSegment_def is_negative_def
        isSafeInteger_def MAX_SAFE_INTEGER_def raw_of_def)
  have p2: "parse ''/foo/bar'' = Inr [Str ''foo'', Str ''bar'']"
    by code_simp
  have r1: "resolve [Num 0] (LikePointer [Str ''foo'', Str ''bar'']) = Inr [Str ''foo'', Str ''bar'']"
    using resolve_truncates_and_appends [OF vr(1) nk(1) no(1) vp(1)]
    by (simp add: pi getDepth_def)
  have r2: "resolve [Num 2, Str ''qux''] (LikePointer [Str ''foo'', Str ''bar'', Str ''quz''])
       = Inr [Str ''foo'', Str ''qux'']"
    using resolve_truncates_and_appends [OF vr(2) nk(2) no(2) vp(2)]
    by (simp add: pi getDepth_def)
  have r3: "resolve [Num 3] (LikePointer [Str ''foo'', Str ''bar''])
       = Inl (JsonPointerError ''The relative pointer is out of bounds.'')"
    using resolve_truncates_and_appends [OF vr(3) nk(3) no(3) vp(1)]
    by (simp add: pi getDepth_def)
  show ?thesis
    using p1 p2 vr(1) nk(1) no(1) vp(1) r1 r2 r3 by (simp add: equals_iff)
qed

text \<open>
  The claim as stated fails on a base pointer that carries an integer segment which is not
  safe, as \<^verbatim>\<open>JsonPointer.parse\<close> returns for the digit string of \<open>2^53\<close>: \<^verbatim>\<open>resolve\<close> passes
  the segments through \<^verbatim>\<open>JsonPointer.from\<close>, which rejects it, although the parent index
  0 does not exceed the depth 1.
\<close>

theorem resolve_rejects_unsafe_base:
  "parse ''/9007199254740992'' = Inr [Num 9007199254740992]
   \<and> relative_parse ''0'' = Inr [Num 0]
   \<and> \<not> isKeyPointer [Num 0] \<and> getParentIndexOffset [Num 0] = 0
   \<and> getParentIndex [Num 0] \<le> getDepth [Num 9007199254740992]
   \<and> resolve [Num 0] (LikePointer [Num 9007199254740992])
       = Inl (InvalidSyntaxError
               (''Invalid integer segment '' @ quoted ''9007199254740992'' @ ''.''))"
proof -
  have p: "parse ''/9007199254740992'' = Inr [Num 9007199254740992]"
    by (simp add: parse_def unescapeSegment_def digits_only_def is_digit_def parseInt10_def
        digits_value_def digit_val_def)
  have r: "relative_parse ''0'' = Inr [Num 0]"
    by (simp add: relative_parse_def origin_token_def strip_hash_def is_digit_def parse_def
        unescapeSegment_def digits_only_def parseInt10_def digits_value_def digit_val_def
        relative_fromSegments_def pointer_from_def normalizeSegment_def is_negative_def
        isSafeInteger_def MAX_SAFE_INTEGER_def)
  have k: "\<not> isKeyPointer [Num 0]"
    by (simp add: isKeyPointer_def origin_of_number)
  have o: "getParentIndexOffset [Num 0] = 0"
    by (simp add: getParentIndexOffset_def offset_match_def origin_of_number strip_hash_def
        is_digit_def)
  have n: "getParentIndex [Num 0] = 0"
    by (simp add: getParentIndex_def parseInt10_def digits_value_def digit_val_def
        origin_of_number is_digit_def)
  have s: "show_nat 9007199254740992 = ''9007199254740992''"
    by (simp add: show_nat.simps digit_char_def)
  have f: "resolve [Num 0] (LikePointer [Num 9007199254740992])
       = Inl (InvalidSyntaxError
               (''Invalid integer segment '' @ quoted ''9007199254740992'' @ ''.''))"
    unfolding resolve_def n o
    by (simp add: k pointer_from_def normalizeSegment_def is_negative_def isSafeInteger_def
        MAX_SAFE_INTEGER_def show_number_def s)
  from p r k o n f show ?thesis by (simp add: getDepth_def)
qed

subsection \<open>The ancestor stack\<close>

lemma fromSegments_append:
  "fromSegments (a @ b) =
     (case fromSegments a of
        Inl e \<Rightarrow> Inl e
      | Inr p \<Rightarrow> (case fromSegments b of Inl e \<Rightarrow> Inl e | Inr q \<Rightarrow> Inr (p @ q)))"
  by (induction a rule: fromSegments.induct) (auto split: sum.splits)

lemma traverse_loop_entries:
  "traverse_loop this i rest current = Inr entries \<Longrightarrow>
   length entries = length rest \<and>
   (\<forall>j<length rest. walk (take (Suc j) rest) current = Some (snd (entries ! j))
                   \<and> fst (entries ! j) = Some (rest ! j))"
proof (induction rest arbitrary: i current entries)
  case Nil
  then show ?case by simp
next
  case (Cons s rest)
  from Cons.prems obtain nxt tail where
    step: "traverse_step this i s current = Inr nxt"
    and loop: "traverse_loop this (i + 1) rest nxt = Inr tail"
    and entries: "entries = (Some s, nxt) # tail"
    by (auto split: sum.splits)
  from step have w: "walk_step s current = Some nxt"
    by (simp add: traverse_step_Inr_iff)
  from Cons.IH [OF loop] have ih: "length tail = length rest"
    "\<And>j. j < length rest \<Longrightarrow> walk (take (Suc j) rest) nxt = Some (snd (tail ! j))
                              \<and> fst (tail ! j) = Some (rest ! j)"
    by simp_all
  show ?case
  proof (intro conjI allI impI)
    show "length entries = length (s # rest)" using entries ih(1) by simp
  next
    fix j assume "j < length (s # rest)"
    then show "walk (take (Suc j) (s # rest)) current = Some (snd (entries ! j))"
      using entries w ih(2) by (cases j) simp_all
  next
    fix j assume "j < length (s # rest)"
    then show "fst (entries ! j) = Some ((s # rest) ! j)"
      using entries ih(2) by (cases j) simp_all
  qed
qed

lemma traverse_entries:
  assumes "traverse p root = Inr stack"
  shows "length stack = Suc (length p)"
    and "j \<le> length p \<Longrightarrow> walk (take j p) root = Some (snd (stack ! j))"
    and "j < length p \<Longrightarrow> fst (stack ! Suc j) = Some (p ! j)"
    and "fst (stack ! 0) = None"
proof -
  from assms obtain entries where
    loop: "traverse_loop p 0 p root = Inr entries" and stack: "stack = (None, root) # entries"
    by (auto simp: traverse_def split: sum.splits)
  note e = traverse_loop_entries [OF loop]
  show "length stack = Suc (length p)" using stack e by simp
  show "fst (stack ! 0) = None" using stack by simp
  show "j < length p \<Longrightarrow> fst (stack ! Suc j) = Some (p ! j)" using stack e by simp
  show "j \<le> length p \<Longrightarrow> walk (take j p) root = Some (snd (stack ! j))"
    using stack e by (cases j) simp_all
qed

lemma getReferenceStack_plain:
  assumes "getParentIndexOffset this = 0" and "getReferenceStack this root base = Inr stack"
  shows "getParentIndex this \<le> length base
       \<and> stack \<noteq> []
       \<and> length stack = Suc (length base - getParentIndex this)
       \<and> walk (take (length base - getParentIndex this) base) root = Some (snd (last stack))"
proof -
  from assms obtain full where t: "traverse base root = Inr full"
    and n: "getParentIndex this < length full"
    and s: "stack = take (length full - getParentIndex this - 1 + 1) full"
    by (auto simp: getReferenceStack_def Let_def split: sum.splits if_splits)
  note e = traverse_entries [OF t]
  let ?d = "length base - getParentIndex this"
  from n e(1) have le: "getParentIndex this \<le> length base" by simp
  with s e(1) have s': "stack = take (Suc ?d) full" by simp
  with e(1) have len: "length stack = Suc ?d" by simp
  then have ne: "stack \<noteq> []" by auto
  have "last stack = stack ! ?d" using ne len by (simp add: last_conv_nth)
  also have "\<dots> = full ! ?d" using s' by simp
  finally have "last stack = full ! ?d" .
  with e(2) [of ?d] show ?thesis using le len ne by simp
qed


lemma within_array_limit_walk_step:
  assumes "within_array_limit current" and "walk_step s current = Some v"
  shows "within_array_limit v"
proof (cases "(s, current)" rule: walk_step.cases)
  case (1 n xs)
  with assms show ?thesis
    by (auto simp: list_all_length split: if_splits)
next
  case (2 k kvs)
  with assms have h: "has_key k kvs" and v: "v = obj_get k kvs" by (auto split: if_splits)
  from h have "map_of kvs k \<noteq> None" by (simp add: has_key_def map_of_eq_None_iff)
  then obtain u where m: "map_of kvs k = Some u" by blast
  then have "(k, u) \<in> set kvs" by (rule map_of_SomeD)
  with assms(1) 2 have "within_array_limit u" by (auto simp: list_all_iff)
  with m v show ?thesis by (simp add: obj_get_def)
qed (use assms in simp_all)

lemma walked_pointer_valid:
  "within_array_limit root \<Longrightarrow> normal_strings p \<Longrightarrow> walk p root = Some v \<Longrightarrow>
   valid_pointer p"
proof (induction p arbitrary: root)
  case Nil
  then show ?case by (simp add: valid_pointer_def)
next
  case (Cons s p)
  from Cons.prems(3) obtain nxt where n: "walk_step s root = Some nxt" "walk p nxt = Some v"
    by (auto split: option.splits)
  from Cons.prems(1) n(1) have "within_array_limit nxt" by (rule within_array_limit_walk_step)
  moreover from Cons.prems(2) have "normal_strings p" by (simp add: normal_strings_def)
  ultimately have rest: "valid_pointer p" using n(2) by (rule Cons.IH)
  have "valid_segment s"
  proof (cases s)
    case (Num k)
    with n(1) obtain xs where "root = JArray xs" "k < length xs"
      by (cases root) (auto split: if_splits)
    with Cons.prems(1) have "k \<le> MAX_ARRAY_LENGTH" by simp
    with Num show ?thesis
      by (simp add: valid_segment_def MAX_ARRAY_LENGTH_def MAX_SAFE_INTEGER_def)
  next
    case (Str k)
    with Cons.prems(2) show ?thesis by (simp add: normal_strings_def valid_segment_def)
  qed
  with rest show ?case by (simp add: valid_pointer_def)
qed

lemma normal_strings_take: "normal_strings p \<Longrightarrow> normal_strings (take n p)"
  by (auto simp: normal_strings_def list_all_iff dest: in_set_takeD)

subsection \<open>Reading through a relative pointer\<close>

text \<open>
  Claim C10: for a relative pointer that is not a key pointer and has no offset, a base
  pointer and a tree: whenever \<^verbatim>\<open>get\<close> of the relative pointer succeeds, \<^verbatim>\<open>resolve\<close>
  against the same base succeeds too, and \<^verbatim>\<open>JsonPointer.get\<close> at the resolved pointer
  returns the same value. The base is any pointer a constructor can return, \<^verbatim>\<open>parse\<close>
  included (\<open>normal_strings\<close>), and the tree any tree of JavaScript (its arrays are
  shorter than \<open>2^32\<close>).
\<close>

theorem relative_get_agrees_with_resolve:
  assumes "normal_strings base" and "within_array_limit root" and "\<not> isKeyPointer this"
    and "getParentIndexOffset this = 0" and "relative_get this root base = Inr v"
  shows "\<exists>absolute. resolve this (LikePointer base) = Inr absolute \<and> get absolute root = Inr v"
proof -
  let ?n = "getParentIndex this"
  let ?kept = "take (length base - ?n) base"
  from assms(3,5) obtain stack remainder where
    st: "getReferenceStack this root base = Inr stack"
    and rm: "getRemainderPointer this = Inr remainder"
    and gt: "get remainder (snd (last stack)) = Inr v"
    by (auto simp: relative_get_def split: sum.splits)
  from getReferenceStack_plain [OF assms(4) st]
  have le: "?n \<le> length base" and top: "walk ?kept root = Some (snd (last stack))"
    by simp_all
  have "normal_strings ?kept" using assms(1) by (rule normal_strings_take)
  with assms(2) have "valid_pointer ?kept" using top by (rule walked_pointer_valid)
  then have kept: "fromSegments (map normalizeSegment (map raw_of ?kept)) = Inr ?kept"
    by (simp add: map_normalizeSegment_raw_of fromSegments_raw_of del: map_map)
  from rm have rest: "fromSegments (map normalizeSegment (map raw_of (tl this))) = Inr remainder"
    by (simp add: getRemainderPointer_def pointer_from_def)
  have "pointer_from (LikeSegments (map raw_of (?kept @ tl this)))
        = fromSegments (map normalizeSegment (map raw_of ?kept)
                        @ map normalizeSegment (map raw_of (tl this)))"
    by (simp add: pointer_from_def)
  also have "\<dots> = Inr (?kept @ remainder)"
    by (simp only: fromSegments_append kept rest sum.case)
  finally have built: "pointer_from (LikeSegments (map raw_of (?kept @ tl this)))
        = Inr (?kept @ remainder)" .
  have same: "(if ?n > 0 then ?kept else base) = ?kept" by simp
  have res: "resolve this (LikePointer base) = Inr (?kept @ remainder)"
    using le assms(3,4) built
    by (simp add: resolve_def pointer_from_def [of "LikePointer base"] Let_def same
        del: map_append)
  from gt have "walk remainder (snd (last stack)) = Some v" by (simp add: get_walk)
  with top have "walk (?kept @ remainder) root = Some v" by (simp add: walk_append)
  then have "get (?kept @ remainder) root = Inr v" by (simp add: get_walk)
  with res show ?thesis by blast
qed


theorem relative_get_agrees_with_resolve_witness:
  "normal_strings [Str ''foo'', Num 1]
   \<and> within_array_limit (JObject [(''foo'', JArray [JString ''bar'', JString ''baz''])])
   \<and> \<not> isKeyPointer [Num 1, Num 0]
   \<and> getParentIndexOffset [Num 1, Num 0] = 0
   \<and> relative_get [Num 1, Num 0] (JObject [(''foo'', JArray [JString ''bar'', JString ''baz''])])
         [Str ''foo'', Num 1] = Inr (JString ''bar'')
   \<and> resolve [Num 1, Num 0] (LikePointer [Str ''foo'', Num 1]) = Inr [Str ''foo'', Num 0]
   \<and> get [Str ''foo'', Num 0] (JObject [(''foo'', JArray [JString ''bar'', JString ''baz''])])
       = Inr (JString ''bar'')"
proof -
  let ?root = "JObject [(''foo'', JArray [JString ''bar'', JString ''baz''])]"
  have o: "origin_text [Num 1, Num 0] = ''1''" "origin_text [Num (Suc 0), Num 0] = ''1''"
    by (simp_all add: origin_text_def segment_text_def show_nat.simps digit_char_def)
  have vp: "normal_strings [Str ''foo'', Num 1]"
    by (simp add: normal_strings_def digits_only_def is_digit_def)
  have wl: "within_array_limit ?root"
    by (simp add: MAX_ARRAY_LENGTH_def)
  have nk: "\<not> isKeyPointer [Num 1, Num 0]"
    by (simp add: isKeyPointer_def o)
  have no: "getParentIndexOffset [Num 1, Num 0] = 0"
    by (simp add: getParentIndexOffset_def offset_match_def o strip_hash_def is_digit_def)
  have pi: "getParentIndex [Num 1, Num 0] = 1"
    by (simp add: getParentIndex_def parseInt10_def digits_value_def digit_val_def o is_digit_def)
  have tr: "traverse [Str ''foo'', Num 1] ?root
            = Inr [(None, ?root), (Some (Str ''foo''), JArray [JString ''bar'', JString ''baz'']),
                   (Some (Num 1), JString ''baz'')]"
    by (simp add: traverse_def traverse_step_def has_key_def obj_get_def)
  have rp: "getRemainderPointer [Num 1, Num 0] = Inr [Num 0]"
    by (simp add: getRemainderPointer_def pointer_from_def normalizeSegment_def
        is_negative_def isSafeInteger_def MAX_SAFE_INTEGER_def)
  have g0: "get [Num 0] (JArray [JString ''bar'', JString ''baz'']) = Inr (JString ''bar'')"
    by (simp add: get_walk)
  have rg: "relative_get [Num 1, Num 0] ?root [Str ''foo'', Num 1] = Inr (JString ''bar'')"
    unfolding relative_get_def getReferenceStack_def tr pi no rp
    by (simp add: nk g0 del: One_nat_def)
  have rs: "resolve [Num 1, Num 0] (LikePointer [Str ''foo'', Num 1]) = Inr [Str ''foo'', Num 0]"
    unfolding resolve_def pi no
    by (simp add: nk pointer_from_def normalizeSegment_def is_negative_def isSafeInteger_def
        MAX_SAFE_INTEGER_def digits_only_def is_digit_def del: One_nat_def)
  from relative_get_agrees_with_resolve [OF vp wl nk no rg] obtain absolute where
    a: "resolve [Num 1, Num 0] (LikePointer [Str ''foo'', Num 1]) = Inr absolute"
    "get absolute ?root = Inr (JString ''bar'')" by blast
  from a(1) rs have "absolute = [Str ''foo'', Num 0]" by simp
  with a(2) have "get [Str ''foo'', Num 0] ?root = Inr (JString ''bar'')" by simp
  with vp wl nk no rg rs show ?thesis by simp
qed

subsection \<open>The versions of \<^verbatim>\<open>JsonRelativePointer.set\<close>\<close>

lemma getReferenceStack_v3_Inr:
  "getReferenceStack this root pointer = Inr stack \<Longrightarrow>
   getReferenceStack_v3 this root pointer = Inr stack"
  by (cases "traverse pointer root")
     (auto simp: getReferenceStack_def getReferenceStack_v3_def Let_def
           split: if_splits json.splits option.splits segment.splits)

lemma getReferenceStack_v3_plain:
  "getParentIndexOffset this = 0 \<Longrightarrow>
   getReferenceStack_v3 this root pointer = getReferenceStack this root pointer"
  by (cases "traverse pointer root")
     (simp_all add: getReferenceStack_def getReferenceStack_v3_def Let_def)

text \<open>
  Claim C9, as amended: the first and the second version of \<^verbatim>\<open>JsonRelativePointer.set\<close>
  agree on every input. The third version agrees with them whenever the ancestor stack is
  built and has at least two entries or the remainder pointer is the root, and whenever
  a pointer without offset fails to build its stack. With a remainder that is not the
  root, the first version hands the value on top of the stack to the remainder pointer's
  \<^verbatim>\<open>set\<close>, whatever the size of the stack, while the third version refuses every stack
  of fewer than two entries.
\<close>

theorem relative_set_versions:
  "relative_set_v2 this root v pointer = relative_set this root v pointer
   \<and> (\<forall>stack. getReferenceStack this root pointer = Inr stack
          \<and> (2 \<le> length stack \<or> getRemainderPointer this = Inr []) \<longrightarrow>
        relative_set_v3 this root v pointer = relative_set this root v pointer)
   \<and> (getParentIndexOffset this = 0 \<and> (\<exists>e. getReferenceStack this root pointer = Inl e) \<longrightarrow>
        relative_set_v3 this root v pointer = relative_set this root v pointer)
   \<and> (\<forall>stack remainder. \<not> isKeyPointer this
          \<and> getReferenceStack this root pointer = Inr stack
          \<and> getRemainderPointer this = Inr remainder \<and> \<not> isRoot remainder \<longrightarrow>
        relative_set this root v pointer =
          (case pointer_set remainder (snd (last stack)) v of
             Inl e \<Rightarrow> Inl e
           | Inr changed \<Rightarrow> Inr (write_back (stack_path stack) changed root)))
   \<and> (\<forall>stack. \<not> isKeyPointer this \<and> getReferenceStack this root pointer = Inr stack
          \<and> length stack < 2 \<longrightarrow>
        relative_set_v3 this root v pointer
          = Inl (JsonPointerError ''Cannot set the root value.''))"
proof (intro conjI allI impI)
  show "relative_set_v2 this root v pointer = relative_set this root v pointer"
    by (simp add: relative_set_v2_def relative_set_def)
next
  fix stack
  assume h: "getReferenceStack this root pointer = Inr stack
             \<and> (2 \<le> length stack \<or> getRemainderPointer this = Inr [])"
  then have s3: "getReferenceStack_v3 this root pointer = Inr stack"
    by (simp add: getReferenceStack_v3_Inr)
  from h show "relative_set_v3 this root v pointer = relative_set this root v pointer"
    unfolding relative_set_v3_def relative_set_def s3
    by (auto simp: isRoot_def split: sum.splits)
next
  assume h: "getParentIndexOffset this = 0 \<and> (\<exists>e. getReferenceStack this root pointer = Inl e)"
  then obtain e where e: "getReferenceStack this root pointer = Inl e" by blast
  with h have "getReferenceStack_v3 this root pointer = Inl e"
    by (simp add: getReferenceStack_v3_plain)
  with e show "relative_set_v3 this root v pointer = relative_set this root v pointer"
    by (simp add: relative_set_v3_def relative_set_def)
next
  fix stack remainder
  assume "\<not> isKeyPointer this \<and> getReferenceStack this root pointer = Inr stack
          \<and> getRemainderPointer this = Inr remainder \<and> \<not> isRoot remainder"
  then show "relative_set this root v pointer =
          (case pointer_set remainder (snd (last stack)) v of
             Inl e \<Rightarrow> Inl e
           | Inr changed \<Rightarrow> Inr (write_back (stack_path stack) changed root))"
    by (simp add: relative_set_def)
next
  fix stack
  assume h: "\<not> isKeyPointer this \<and> getReferenceStack this root pointer = Inr stack
             \<and> length stack < 2"
  then have "getReferenceStack_v3 this root pointer = Inr stack"
    by (simp add: getReferenceStack_v3_Inr)
  with h show "relative_set_v3 this root v pointer
          = Inl (JsonPointerError ''Cannot set the root value.'')"
    by (simp add: relative_set_v3_def)
qed


lemma origin_zero:
  "\<not> isKeyPointer (Num 0 # rest)" "getParentIndexOffset (Num 0 # rest) = 0"
  "getParentIndex (Num 0 # rest) = 0"
  by (simp_all add: isKeyPointer_def getParentIndexOffset_def offset_match_def
      getParentIndex_def parseInt10_def digits_value_def digit_val_def origin_of_number
      strip_hash_def is_digit_def)

lemma remainder_of_valid:
  "valid_pointer rest \<Longrightarrow> getRemainderPointer (s # rest) = Inr rest"
  by (simp add: getRemainderPointer_def pointer_from_valid)

lemma stack_at_root:
  "getReferenceStack (Num 0 # rest) root [] = Inr [(None, root)]"
  "getReferenceStack_v3 (Num 0 # rest) root [] = Inr [(None, root)]"
  by (simp_all add: getReferenceStack_def getReferenceStack_v3_def traverse_def origin_zero)

text \<open>
  The claim as stated fails: relative to the root of \<^verbatim>\<open>{}\<close>, the pointer \<^verbatim>\<open>0/foo\<close> adds
  the property in the first version, and is refused by the third.
\<close>

theorem relative_set_versions_differ:
  "relative_set [Num 0, Str ''foo''] (JObject []) (JBool True) []
     \<noteq> relative_set_v3 [Num 0, Str ''foo''] (JObject []) (JBool True) []
   \<and> relative_set [Num 0, Str ''foo''] (JObject []) (JBool True) []
     = Inr (JObject [(''foo'', JBool True)])
   \<and> relative_set_v3 [Num 0, Str ''foo''] (JObject []) (JBool True) []
     = Inl (JsonPointerError ''Cannot set the root value.'')"
proof -
  have v: "valid_pointer [Str ''foo'']"
    by (simp add: valid_pointer_def valid_segment_def digits_only_def is_digit_def)
  have s: "pointer_set [Str ''foo''] (JObject []) (JBool True) = Inr (JObject [(''foo'', JBool True)])"
    by (simp add: pointer_set_def isRoot_def get_def traverse_def segment_text_def)
  have a: "relative_set [Num 0, Str ''foo''] (JObject []) (JBool True) []
     = Inr (JObject [(''foo'', JBool True)])"
    by (simp add: relative_set_def origin_zero stack_at_root remainder_of_valid [OF v]
        isRoot_def s stack_path_def)
  have b: "relative_set_v3 [Num 0, Str ''foo''] (JObject []) (JBool True) []
     = Inl (JsonPointerError ''Cannot set the root value.'')"
    by (simp add: relative_set_v3_def origin_zero stack_at_root)
  from a b show ?thesis by simp
qed

theorem relative_set_versions_witness:
  "getReferenceStack [Num 0, Num 1] (JObject [(''foo'', JArray [JString ''bar'', JString ''baz''])])
      [Str ''foo'']
     = Inr [(None, JObject [(''foo'', JArray [JString ''bar'', JString ''baz''])]),
            (Some (Str ''foo''), JArray [JString ''bar'', JString ''baz''])]
   \<and> relative_set [Num 0, Num 1] (JObject [(''foo'', JArray [JString ''bar'', JString ''baz''])])
         (JString ''quz'') [Str ''foo'']
     = Inr (JObject [(''foo'', JArray [JString ''bar'', JString ''quz''])])
   \<and> relative_set_v3 [Num 0, Num 1] (JObject [(''foo'', JArray [JString ''bar'', JString ''baz''])])
         (JString ''quz'') [Str ''foo'']
     = Inr (JObject [(''foo'', JArray [JString ''bar'', JString ''quz''])])
   \<and> relative_set_v2 [Num 0, Num 1] (JObject [(''foo'', JArray [JString ''bar'', JString ''baz''])])
         (JString ''quz'') [Str ''foo'']
     = Inr (JObject [(''foo'', JArray [JString ''bar'', JString ''quz''])])
   \<and> getReferenceStack [Num 0] (JObject []) [Str ''foo'']
     = Inl (InvalidReferenceError
             (''Property '' @ quoted ''foo'' @ '' does not exist at '' @ quoted [] @ ''.''))
   \<and> relative_set_v3 [Num 0] (JObject []) (JBool True) [Str ''foo'']
     = relative_set [Num 0] (JObject []) (JBool True) [Str ''foo'']
   \<and> getReferenceStack [Num 0, Str ''x''] (JObject [(''a'', JObject [])]) [Str ''a'']
     = Inr [(None, JObject [(''a'', JObject [])]), (Some (Str ''a''), JObject [])]
   \<and> getRemainderPointer [Num 0, Str ''x''] = Inr [Str ''x'']
   \<and> relative_set [Num 0, Str ''x''] (JObject [(''a'', JObject [])]) JNull [Str ''a'']
     = Inr (JObject [(''a'', JObject [(''x'', JNull)])])
   \<and> getReferenceStack [Num 0, Str ''x''] JNull [] = Inr [(None, JNull)]
   \<and> relative_set_v3 [Num 0, Str ''x''] JNull JNull []
     = Inl (JsonPointerError ''Cannot set the root value.'')"
proof -
  let ?root = "JObject [(''foo'', JArray [JString ''bar'', JString ''baz''])]"
  let ?arr = "JArray [JString ''bar'', JString ''baz'']"
  have v: "valid_pointer [Num 1]"
    by (simp add: valid_pointer_def valid_segment_def MAX_SAFE_INTEGER_def)
  have tr: "traverse [Str ''foo''] ?root = Inr [(None, ?root), (Some (Str ''foo''), ?arr)]"
    by (simp add: traverse_def traverse_step_def has_key_def obj_get_def)
  have st: "getReferenceStack [Num 0, Num 1] ?root [Str ''foo'']
            = Inr [(None, ?root), (Some (Str ''foo''), ?arr)]"
    unfolding getReferenceStack_def tr by (simp add: origin_zero)
  have ps: "pointer_set [Num 1] ?arr (JString ''quz'') = Inr (JArray [JString ''bar'', JString ''quz''])"
    by (simp add: pointer_set_def isRoot_def get_def traverse_def arr_assign_def)
  have a: "relative_set [Num 0, Num 1] ?root (JString ''quz'') [Str ''foo'']
           = Inr (JObject [(''foo'', JArray [JString ''bar'', JString ''quz''])])"
    unfolding relative_set_def st remainder_of_valid [OF v]
    by (simp add: origin_zero isRoot_def ps stack_path_def has_key_def
        obj_get_def del: One_nat_def)
  have len: "(2::nat) \<le> length [(None, ?root), (Some (Str ''foo''), ?arr)]" by simp
  have b: "relative_set_v3 [Num 0, Num 1] ?root (JString ''quz'') [Str ''foo'']
           = Inr (JObject [(''foo'', JArray [JString ''bar'', JString ''quz''])])"
    using relative_set_versions [of "[Num 0, Num 1]" ?root "JString ''quz''" "[Str ''foo'']"]
      st len a by metis
  have c: "relative_set_v2 [Num 0, Num 1] ?root (JString ''quz'') [Str ''foo'']
           = Inr (JObject [(''foo'', JArray [JString ''bar'', JString ''quz''])])"
    using relative_set_versions [of "[Num 0, Num 1]" ?root "JString ''quz''" "[Str ''foo'']"]
      a by simp
  have tf: "traverse [Str ''foo''] (JObject [])
            = Inl (InvalidReferenceError
                (''Property '' @ quoted ''foo'' @ '' does not exist at '' @ quoted [] @ ''.''))"
    by (simp add: traverse_def traverse_step_def has_key_def reference_error_def truncatedAt_def
        ROOT_SINGLETON_def toString_def isRoot_def)
  have sf: "getReferenceStack [Num 0] (JObject []) [Str ''foo'']
            = Inl (InvalidReferenceError
                (''Property '' @ quoted ''foo'' @ '' does not exist at '' @ quoted [] @ ''.''))"
    unfolding getReferenceStack_def tf by simp
  have d: "relative_set_v3 [Num 0] (JObject []) (JBool True) [Str ''foo'']
           = relative_set [Num 0] (JObject []) (JBool True) [Str ''foo'']"
    using relative_set_versions [of "[Num 0]" "JObject []" "JBool True" "[Str ''foo'']"]
      sf origin_zero(2) [of "[]"] by blast
  let ?tree = "JObject [(''a'', JObject [])]"
  have vx: "valid_pointer [Str ''x'']"
    by (simp add: valid_pointer_def valid_segment_def digits_only_def is_digit_def)
  have ta: "traverse [Str ''a''] ?tree = Inr [(None, ?tree), (Some (Str ''a''), JObject [])]"
    by (simp add: traverse_def traverse_step_def has_key_def obj_get_def)
  have sx: "getReferenceStack [Num 0, Str ''x''] ?tree [Str ''a'']
            = Inr [(None, ?tree), (Some (Str ''a''), JObject [])]"
    unfolding getReferenceStack_def ta by (simp add: origin_zero)
  have px: "pointer_set [Str ''x''] (JObject []) JNull = Inr (JObject [(''x'', JNull)])"
    by (simp add: pointer_set_def isRoot_def get_def traverse_def segment_text_def)
  have nr: "\<not> isRoot [Str ''x'']" by (simp add: isRoot_def)
  have e: "relative_set [Num 0, Str ''x''] ?tree JNull [Str ''a'']
           = Inr (JObject [(''a'', JObject [(''x'', JNull)])])"
    using relative_set_versions [of "[Num 0, Str ''x'']" ?tree JNull "[Str ''a'']"]
      origin_zero(1) [of "[Str ''x'']"] sx remainder_of_valid [OF vx, of "Num 0"] nr
    by (simp add: px stack_path_def has_key_def obj_get_def)
  have one: "length [(None :: segment option, JNull)] < 2" by simp
  have g: "relative_set_v3 [Num 0, Str ''x''] JNull JNull []
           = Inl (JsonPointerError ''Cannot set the root value.'')"
    using relative_set_versions [of "[Num 0, Str ''x'']" JNull JNull "[]"]
      origin_zero(1) [of "[Str ''x'']"] stack_at_root(1) [of "[Str ''x'']" JNull] one
    by blast
  from st a b c sf d sx remainder_of_valid [OF vx, of "Num 0"] e
    stack_at_root(1) [of "[Str ''x'']" JNull] g
  show ?thesis by simp
qed

end
